theory Spec2Isabelle
  imports Complex_Main "HOL-Library.AList" "HOL-Library.Multiset"
begin

section \<open>Text: the operations of Python's \<open>str\<close> that the engine uses\<close>

text \<open>
  The definitions follow the source function by function and keep its names, without the
  leading underscore of the private ones (\<open>_auto_tag\<close> is \<open>auto_tag\<close>).
  Text is a list of characters; a character stands for the code point of the same number
  (0 to 255).  The classifications below are those of Python 3 on that range.
  A float is modelled by the rational number it stands for, so arithmetic is exact.
\<close>

definition SPACES :: string where
  \<comment> \<open>\<open>str.isspace\<close>: TAB to CR, FS to US, space, NEL, NBSP\<close>
  "SPACES = [CHR 0x09, CHR 0x0A, CHR 0x0B, CHR 0x0C, CHR 0x0D, CHR 0x1C, CHR 0x1D, CHR 0x1E, CHR 0x1F, CHR 0x20, CHR 0x85, CHR 0xA0]"

definition isspace :: "char \<Rightarrow> bool" where
  "isspace c = (c \<in> set SPACES)"

definition LATIN_UPPER :: string where
  "LATIN_UPPER = [CHR 0xC0, CHR 0xC1, CHR 0xC2, CHR 0xC3, CHR 0xC4, CHR 0xC5, CHR 0xC6, CHR 0xC7, CHR 0xC8, CHR 0xC9, CHR 0xCA, CHR 0xCB, CHR 0xCC, CHR 0xCD, CHR 0xCE, CHR 0xCF, CHR 0xD0, CHR 0xD1, CHR 0xD2, CHR 0xD3, CHR 0xD4, CHR 0xD5, CHR 0xD6, CHR 0xD8, CHR 0xD9, CHR 0xDA, CHR 0xDB, CHR 0xDC, CHR 0xDD, CHR 0xDE]"

definition LATIN_LOWER :: string where
  "LATIN_LOWER = [CHR 0xE0, CHR 0xE1, CHR 0xE2, CHR 0xE3, CHR 0xE4, CHR 0xE5, CHR 0xE6, CHR 0xE7, CHR 0xE8, CHR 0xE9, CHR 0xEA, CHR 0xEB, CHR 0xEC, CHR 0xED, CHR 0xEE, CHR 0xEF, CHR 0xF0, CHR 0xF1, CHR 0xF2, CHR 0xF3, CHR 0xF4, CHR 0xF5, CHR 0xF6, CHR 0xF8, CHR 0xF9, CHR 0xFA, CHR 0xFB, CHR 0xFC, CHR 0xFD, CHR 0xFE]"

definition ASCII_UPPER :: string where
  "ASCII_UPPER = ''ABCDEFGHIJKLMNOPQRSTUVWXYZ''"

definition ASCII_LOWER :: string where
  "ASCII_LOWER = ''abcdefghijklmnopqrstuvwxyz''"

definition DIGITS :: string where
  "DIGITS = ''0123456789''"

definition isalnum :: "char \<Rightarrow> bool" where
  \<comment> \<open>letters and numeric characters below code point 256\<close>
  "isalnum c = (c \<in> set (DIGITS @ ASCII_UPPER @ ASCII_LOWER
      @ [CHR 0xAA, CHR 0xB2, CHR 0xB3, CHR 0xB5, CHR 0xB9, CHR 0xBA, CHR 0xBC, CHR 0xBD, CHR 0xBE]
      @ LATIN_UPPER @ [CHR 0xDF] @ LATIN_LOWER @ [CHR 0xFF]))"

definition is_word :: "char \<Rightarrow> bool" where
  \<comment> \<open>the class \<open>\w\<close> of \<open>re\<close> on \<open>str\<close> patterns\<close>
  "is_word c = (isalnum c \<or> c = CHR ''_'')"

definition lower_char :: "char \<Rightarrow> char" where
  "lower_char c =
     (case map_of (zip (ASCII_UPPER @ LATIN_UPPER) (ASCII_LOWER @ LATIN_LOWER)) c of
        None \<Rightarrow> c | Some d \<Rightarrow> d)"

definition lower :: "string \<Rightarrow> string" where
  "lower s = map lower_char s"

definition strip :: "string \<Rightarrow> string" where
  "strip s = rev (dropWhile isspace (rev (dropWhile isspace s)))"

definition rstrip_chars :: "char set \<Rightarrow> string \<Rightarrow> string" where
  "rstrip_chars cs s = rev (dropWhile (\<lambda>c. c \<in> cs) (rev s))"

fun split_acc :: "string \<Rightarrow> string \<Rightarrow> string list" where
  "split_acc w [] = (if w = [] then [] else [rev w])"
| "split_acc w (c # cs) =
     (if isspace c then (if w = [] then split_acc [] cs else rev w # split_acc [] cs)
      else split_acc (c # w) cs)"

definition split :: "string \<Rightarrow> string list" where
  \<comment> \<open>\<open>str.split()\<close> without arguments: the maximal runs of non-space characters\<close>
  "split s = split_acc [] s"

section \<open>Regular expressions: the fragment of \<open>re\<close> that the patterns use\<close>

text \<open>
  A position in the subject is the rest of the text together with one bit: whether the
  character just before it is a word character (false at the start of the text).  That bit
  is all that \<open>\b\<close> needs from the left.  \<open>ms r p\<close> lists the positions at which a match
  of \<open>r\<close> starting at \<open>p\<close> can end, in the order in which a backtracking matcher tries
  them, so that its head is the match that \<open>re\<close> reports.
\<close>

datatype regex =
    Eps
  | Chr char
  | Dot
  | Opt regex
  | Seq regex regex
  | Alt regex regex
  | Bound

type_synonym pos = "bool \<times> string"

fun wb :: "bool \<Rightarrow> string \<Rightarrow> bool" where
  "wb w [] = w"
| "wb w (c # cs) = (w \<noteq> is_word c)"

fun ms :: "regex \<Rightarrow> pos \<Rightarrow> pos list" where
  "ms Eps p = [p]"
| "ms (Chr c) (w, []) = []"
| "ms (Chr c) (w, d # cs) = (if c = d then [(is_word d, cs)] else [])"
| "ms Dot (w, []) = []"
| "ms Dot (w, d # cs) = (if d \<noteq> CHR 0x0A then [(is_word d, cs)] else [])"
| "ms (Opt r) p = ms r p @ [p]"
| "ms (Seq r s) p = concat (map (ms s) (ms r p))"
| "ms (Alt r s) p = ms r p @ ms s p"
| "ms Bound (w, cs) = (if wb w cs then [(w, cs)] else [])"

fun search_from :: "regex \<Rightarrow> bool \<Rightarrow> string \<Rightarrow> bool" where
  "search_from r w [] = (ms r (w, []) \<noteq> [])"
| "search_from r w (c # cs) = (ms r (w, c # cs) \<noteq> [] \<or> search_from r (is_word c) cs)"

definition re_search :: "regex \<Rightarrow> string \<Rightarrow> bool" where
  \<comment> \<open>whether \<open>re.search(r, t)\<close> finds a match\<close>
  "re_search r t = search_from r False t"

fun findall_from :: "regex \<Rightarrow> nat \<Rightarrow> bool \<Rightarrow> string \<Rightarrow> string list" where
  "findall_from r skip w [] = (case ms r (w, []) of [] \<Rightarrow> [] | _ # _ \<Rightarrow> [[]])"
| "findall_from r skip w (c # cs) =
     (if 0 < skip then findall_from r (skip - 1) (is_word c) cs
      else (case ms r (w, c # cs) of
              [] \<Rightarrow> findall_from r 0 (is_word c) cs
            | (w', rest) # _ \<Rightarrow>
                (let k = length (c # cs) - length rest
                 in take k (c # cs) # findall_from r (k - 1) (is_word c) cs)))"

definition re_findall :: "regex \<Rightarrow> string \<Rightarrow> string list" where
  \<comment> \<open>\<open>re.findall(r, t)\<close>: the non-overlapping matches, leftmost first\<close>
  "re_findall r t = findall_from r 0 False t"

definition lit :: "string \<Rightarrow> regex" where
  "lit s = foldr (\<lambda>c r. Seq (Chr c) r) s Eps"

definition alts :: "regex list \<Rightarrow> regex" where
  "alts rs = foldr Alt (butlast rs) (last rs)"

definition word_re :: "regex list \<Rightarrow> regex" where
  \<comment> \<open>\<open>\b(a|b|...)\b\<close>\<close>
  "word_re rs = Seq Bound (Seq (alts rs) Bound)"

definition words_re :: "string list \<Rightarrow> regex" where
  "words_re ws = word_re (map lit ws)"

section \<open>core.py: tags and the confidence score\<close>

definition TAG_PATTERNS :: "(string \<times> regex) list" where
  "TAG_PATTERNS =
    [(''infrastructure'', words_re [''docker'', ''k8s'', ''kubernetes'', ''nginx'', ''server'',
        ''deploy'', ''cloud'', ''aws'', ''gcp'', ''azure'', ''local'']),
     (''ai_ml'', word_re [lit ''llm'', lit ''model'', lit ''embedding'', lit ''rag'',
        lit ''vector'', Seq (lit ''fine'') (Seq (Opt Dot) (lit ''tun'')), lit ''inference'',
        lit ''ollama'', lit ''mistral'', lit ''gpt'']),
     (''python'', words_re [''python'', ''pip'', ''venv'', ''fastapi'', ''flask'', ''django'',
        ''pydantic'']),
     (''architecture'', words_re [''architecture'', ''design'', ''pattern'', ''scalab'',
        ''microservice'', ''monolith'', ''system'']),
     (''debugging'', words_re [''error'', ''bug'', ''fix'', ''broken'', ''fail'', ''crash'',
        ''exception'', ''traceback'']),
     (''preference'', words_re [''prefer'', ''rather'', ''instead'', ''avoid'', ''hate'',
        ''love'', ''like'', ''dislike'', ''want'']),
     (''goal'', words_re [''goal'', ''want to'', ''trying to'', ''building'', ''create'',
        ''launch'', ''ship'']),
     (''frustration'', words_re [''frustrat'', ''annoy'', ''slow'', ''complic'',
        ''overengineer'', ''too much'', ''wrong'']),
     (''spirituality'', words_re [''gita'', ''krishna'', ''karma'', ''jnana'', ''bhakti'',
        ''dharma'', ''marga'', ''yoga'', ''vedic'', ''spiritual'']),
     (''correction'', words_re [''no,'', ''wrong'', ''incorrect'', ''not right'',
        [CHR ''t'', CHR ''h'', CHR ''a'', CHR ''t'', CHR 0x27, CHR ''s'', CHR '' '',
         CHR ''n'', CHR ''o'', CHR ''t''], ''actually,'']),
     (''investing'', words_re [''invest'', ''stock'', ''market'', ''portfolio'', ''value'',
        ''p/e'', ''dividend'', ''equity'', ''asset'']),
     (''learning'', words_re [''learn'', ''study'', ''understand'', ''teach'', ''master'',
        ''curriculum'', ''course'', ''practice''])]"

definition auto_tag :: "string \<Rightarrow> string list" where
  "auto_tag text = (let t = lower text
                    in map fst (filter (\<lambda>(tag, pat). re_search pat t) TAG_PATTERNS))"

definition HEDGES :: regex where
  "HEDGES = words_re [''maybe'', ''perhaps'', ''might'', ''could'', ''not sure'', ''unclear'',
     ''depends'', ''uncertain'', ''possibly'']"

definition round2 :: "rat \<Rightarrow> rat" where
  \<comment> \<open>\<open>round(x, 2)\<close>: to the nearest hundredth, a tie to the even one\<close>
  "round2 x =
     (let y = x * 100; f = \<lfloor>y\<rfloor>; d = y - of_int f
      in of_int (if d < 1 / 2 then f else if 1 / 2 < d then f + 1
                 else if even f then f else f + 1) / 100)"

definition score_of :: "nat \<Rightarrow> bool \<Rightarrow> rat" where
  \<comment> \<open>the return expression of \<open>_score_confidence\<close>\<close>
  "score_of hedges length_ok =
     round2 (max (3 / 10) (min (95 / 100)
       (85 / 100 - (of_nat hedges * (8 / 100)) + (if length_ok then 5 / 100 else 0))))"

definition score_confidence :: "string \<Rightarrow> string \<Rightarrow> rat" where
  "score_confidence question answer =
     (let hedges = length (re_findall HEDGES (lower answer));
          length_ok = (50 < length (split answer) \<and> length (split answer) < 600)
      in score_of hedges length_ok)"

section \<open>JSON: the values, \<open>json.loads\<close> and \<open>json.dumps\<close>\<close>

text \<open>
  A value of Python that \<open>json.loads\<close> can return.  A \<open>dict\<close> keeps its keys in
  insertion order, so it is an association list; an \<open>int\<close> is unbounded and a \<open>float\<close>
  is modelled by the rational it denotes.  The literals \<open>NaN\<close> and \<open>Infinity\<close>, which
  \<open>json.loads\<close> accepts beyond the JSON grammar, have no rational value and are rejected
  here, as are \<open>\u\<close> escapes above \<open>00ff\<close>; the recursion limit of the interpreter is
  not modelled.
\<close>

datatype json =
    JNull
  | JBool bool
  | JInt int
  | JFloat rat
  | JStr string
  | JArr "json list"
  | JObj "(string \<times> json) list"

datatype error =
    JSONDecodeError
  | AttributeError
  | TypeError
  | KeyError string
  | RuntimeError string

definition bind_err :: "error + 'a \<Rightarrow> ('a \<Rightarrow> error + 'b) \<Rightarrow> error + 'b" where
  \<comment> \<open>an exception ends the computation; a value goes on to the next statement\<close>
  "bind_err m f = (case m of Inl e \<Rightarrow> Inl e | Inr x \<Rightarrow> f x)"

fun map_err :: "('a \<Rightarrow> error + 'b) \<Rightarrow> 'a list \<Rightarrow> error + 'b list" where
  "map_err f [] = Inr []"
| "map_err f (x # xs) =
     bind_err (f x) (\<lambda>y. bind_err (map_err f xs) (\<lambda>ys. Inr (y # ys)))"

subsection \<open>Scanning\<close>

datatype token = TLBrace | TRBrace | TLBrack | TRBrack | TComma | TColon | TVal json

definition JSON_WS :: string where
  "JSON_WS = [CHR 0x20, CHR 0x09, CHR 0x0A, CHR 0x0D]"

definition CONTROLS :: string where
  "CONTROLS = [CHR 0x00, CHR 0x01, CHR 0x02, CHR 0x03, CHR 0x04, CHR 0x05, CHR 0x06, CHR 0x07, CHR 0x08,
     CHR 0x09, CHR 0x0A, CHR 0x0B, CHR 0x0C, CHR 0x0D, CHR 0x0E, CHR 0x0F, CHR 0x10,
     CHR 0x11, CHR 0x12, CHR 0x13, CHR 0x14, CHR 0x15, CHR 0x16, CHR 0x17, CHR 0x18,
     CHR 0x19, CHR 0x1A, CHR 0x1B, CHR 0x1C, CHR 0x1D, CHR 0x1E, CHR 0x1F]"

definition PRINTABLE :: string where
  \<comment> \<open>space to tilde: what \<open>json.dumps\<close> writes as it is (quote and backslash apart)\<close>
  "PRINTABLE = [CHR 0x20, CHR 0x21, CHR 0x22, CHR 0x23, CHR 0x24, CHR 0x25, CHR 0x26, CHR 0x27, CHR 0x28,
     CHR 0x29, CHR 0x2A, CHR 0x2B, CHR 0x2C, CHR 0x2D, CHR 0x2E, CHR 0x2F, CHR 0x30,
     CHR 0x31, CHR 0x32, CHR 0x33, CHR 0x34, CHR 0x35, CHR 0x36, CHR 0x37, CHR 0x38,
     CHR 0x39, CHR 0x3A, CHR 0x3B, CHR 0x3C, CHR 0x3D, CHR 0x3E, CHR 0x3F, CHR 0x40,
     CHR 0x41, CHR 0x42, CHR 0x43, CHR 0x44, CHR 0x45, CHR 0x46, CHR 0x47, CHR 0x48,
     CHR 0x49, CHR 0x4A, CHR 0x4B, CHR 0x4C, CHR 0x4D, CHR 0x4E, CHR 0x4F, CHR 0x50,
     CHR 0x51, CHR 0x52, CHR 0x53, CHR 0x54, CHR 0x55, CHR 0x56, CHR 0x57, CHR 0x58,
     CHR 0x59, CHR 0x5A, CHR 0x5B, CHR 0x5C, CHR 0x5D, CHR 0x5E, CHR 0x5F, CHR 0x60,
     CHR 0x61, CHR 0x62, CHR 0x63, CHR 0x64, CHR 0x65, CHR 0x66, CHR 0x67, CHR 0x68,
     CHR 0x69, CHR 0x6A, CHR 0x6B, CHR 0x6C, CHR 0x6D, CHR 0x6E, CHR 0x6F, CHR 0x70,
     CHR 0x71, CHR 0x72, CHR 0x73, CHR 0x74, CHR 0x75, CHR 0x76, CHR 0x77, CHR 0x78,
     CHR 0x79, CHR 0x7A, CHR 0x7B, CHR 0x7C, CHR 0x7D, CHR 0x7E]"

definition QUOTE :: char where
  "QUOTE = CHR 0x22"

definition BACKSLASH :: char where
  "BACKSLASH = CHR 0x5C"

definition isdigit :: "char \<Rightarrow> bool" where
  "isdigit c = (c \<in> set DIGITS)"

definition digit_val :: "char \<Rightarrow> nat" where
  "digit_val c = (case map_of (zip DIGITS [0, 1, 2, 3, 4, 5, 6, 7, 8, 9]) c of
                    None \<Rightarrow> 0 | Some d \<Rightarrow> d)"

definition nat_of_digits :: "string \<Rightarrow> nat" where
  "nat_of_digits ds = foldl (\<lambda>n c. 10 * n + digit_val c) 0 ds"

definition hex_val :: "char \<Rightarrow> nat option" where
  "hex_val c = map_of (zip ''0123456789abcdefABCDEF''
     [0, 1, 2, 3, 4, 5, 6, 7, 8, 9, 10, 11, 12, 13, 14, 15, 10, 11, 12, 13, 14, 15]) c"

definition hex4 :: "char \<Rightarrow> char \<Rightarrow> char \<Rightarrow> char \<Rightarrow> nat option" where
  "hex4 a b c d =
     (case (hex_val a, hex_val b, hex_val c, hex_val d) of
        (Some x, Some y, Some z, Some u) \<Rightarrow> Some (((x * 16 + y) * 16 + z) * 16 + u)
      | _ \<Rightarrow> None)"

definition unescape :: "char \<Rightarrow> char option" where
  "unescape e = map_of [(QUOTE, QUOTE), (BACKSLASH, BACKSLASH), (CHR ''/'', CHR ''/''),
     (CHR ''b'', CHR 0x08), (CHR ''f'', CHR 0x0C), (CHR ''n'', CHR 0x0A),
     (CHR ''r'', CHR 0x0D), (CHR ''t'', CHR 0x09)] e"

definition push :: "char \<Rightarrow> (string \<times> string) option \<Rightarrow> (string \<times> string) option" where
  "push c r = map_option (\<lambda>(s, rest). (c # s, rest)) r"

fun lex_str :: "string \<Rightarrow> (string \<times> string) option" where
  \<comment> \<open>after the opening quote: the string's characters and the text after the closing quote\<close>
  "lex_str [] = None"
| "lex_str (c # cs) =
     (if c = QUOTE then Some ([], cs)
      else if c = BACKSLASH then
        (case cs of
           [] \<Rightarrow> None
         | e # cs' \<Rightarrow>
             if e = CHR ''u'' then
               (case cs' of
                  a # b # c' # d # cs'' \<Rightarrow>
                    (case hex4 a b c' d of
                       None \<Rightarrow> None
                     | Some n \<Rightarrow> if n < 256 then push (char_of n) (lex_str cs'') else None)
                | _ \<Rightarrow> None)
             else (case unescape e of
                     None \<Rightarrow> None
                   | Some ch \<Rightarrow> push ch (lex_str cs')))
      else if c \<in> set CONTROLS then None
      else push c (lex_str cs))"

definition lex_exp :: "string \<Rightarrow> int option \<times> string" where
  \<comment> \<open>the exponent part \<open>[eE][-+]?\d+\<close>, if there is a whole one\<close>
  "lex_exp cs =
     (case cs of
        [] \<Rightarrow> (None, cs)
      | c # r \<Rightarrow>
          if c = CHR ''e'' \<or> c = CHR ''E'' then
            (let (sg, r2) = (case r of
                               [] \<Rightarrow> (1, r)
                             | s # r' \<Rightarrow> if s = CHR ''+'' then (1, r')
                                         else if s = CHR ''-'' then (- 1, r') else (1, r));
                 ds = takeWhile isdigit r2
             in if ds = [] then (None, cs)
                else (Some (sg * int (nat_of_digits ds)), dropWhile isdigit r2))
          else (None, cs))"

definition scale10 :: "rat \<Rightarrow> int \<Rightarrow> rat" where
  "scale10 m e = (if 0 \<le> e then m * 10 ^ nat e else m / 10 ^ nat (- e))"

definition lex_num :: "string \<Rightarrow> (json \<times> string) option" where
  \<comment> \<open>\<open>-?(0|[1-9]\d*)(\.\d+)?([eE][-+]?\d+)?\<close>: an \<open>int\<close> without fraction and exponent\<close>
  "lex_num cs =
     (let (neg, cs1) = (case cs of
                          [] \<Rightarrow> (False, cs)
                        | c # r \<Rightarrow> if c = CHR ''-'' then (True, r) else (False, cs));
          ip = (case cs1 of
                  [] \<Rightarrow> []
                | c # r \<Rightarrow> if c = CHR ''0'' then [c] else takeWhile isdigit cs1);
          cs2 = drop (length ip) cs1
      in if ip = [] then None
         else
           (let (fp, cs3) = (case cs2 of
                               [] \<Rightarrow> ([], cs2)
                             | c # r \<Rightarrow>
                                 if c = CHR ''.'' \<and> takeWhile isdigit r \<noteq> []
                                 then (takeWhile isdigit r, dropWhile isdigit r)
                                 else ([], cs2));
                (ex, cs4) = lex_exp cs3
            in if fp = [] \<and> ex = None
               then Some (JInt ((if neg then - 1 else 1) * int (nat_of_digits ip)), cs4)
               else Some (JFloat ((if neg then - 1 else 1)
                      * scale10 (of_nat (nat_of_digits ip)
                                 + of_nat (nat_of_digits fp) / 10 ^ length fp)
                          (case ex of None \<Rightarrow> 0 | Some e \<Rightarrow> e)), cs4)))"

definition lex_lit :: "string \<Rightarrow> (json \<times> string) option" where
  "lex_lit cs =
     (if take 4 cs = ''null'' then Some (JNull, drop 4 cs)
      else if take 4 cs = ''true'' then Some (JBool True, drop 4 cs)
      else if take 5 cs = ''false'' then Some (JBool False, drop 5 cs)
      else None)"

definition tcons :: "token \<Rightarrow> token list option \<Rightarrow> token list option" where
  "tcons t r = map_option ((#) t) r"

fun lex_from :: "nat \<Rightarrow> string \<Rightarrow> token list option" where
  \<comment> \<open>\<open>skip\<close> counts the characters of the token just read that are still to be passed\<close>
  "lex_from skip [] = Some []"
| "lex_from skip (c # cs) =
     (if 0 < skip then lex_from (skip - 1) cs
      else if c \<in> set JSON_WS then lex_from 0 cs
      else if c = CHR ''{'' then tcons TLBrace (lex_from 0 cs)
      else if c = CHR ''}'' then tcons TRBrace (lex_from 0 cs)
      else if c = CHR ''['' then tcons TLBrack (lex_from 0 cs)
      else if c = CHR '']'' then tcons TRBrack (lex_from 0 cs)
      else if c = CHR '','' then tcons TComma (lex_from 0 cs)
      else if c = CHR '':'' then tcons TColon (lex_from 0 cs)
      else if c = QUOTE then
        (case lex_str cs of
           None \<Rightarrow> None
         | Some (s, rest) \<Rightarrow> tcons (TVal (JStr s)) (lex_from (length cs - length rest) cs))
      else
        (case (if c = CHR ''-'' \<or> isdigit c then lex_num (c # cs) else lex_lit (c # cs)) of
           None \<Rightarrow> None
         | Some (v, rest) \<Rightarrow> tcons (TVal v) (lex_from (length cs - length rest) cs)))"

subsection \<open>Parsing\<close>

text \<open>
  The parser reads one token at a time and keeps the containers that are still open on a
  stack.  A key that occurs again replaces the earlier value and keeps its place, as an
  assignment to a \<open>dict\<close> does.
\<close>

datatype frame =
    FArr "json list"
  | FObj "(string \<times> json) list"
  | FKey "(string \<times> json) list" string

datatype pstate =
    SValue "frame list"
  | SFirst "frame list"
  | SKeyFirst "frame list"
  | SKey "frame list"
  | SColon "frame list"
  | SNext "frame list"
  | SDone json

fun reduce :: "json \<Rightarrow> frame list \<Rightarrow> pstate option" where
  \<comment> \<open>a value is complete: it is the result, an element, or the value of the pending key\<close>
  "reduce v [] = Some (SDone v)"
| "reduce v (FArr acc # fs) = Some (SNext (FArr (acc @ [v]) # fs))"
| "reduce v (FKey kvs k # fs) = Some (SNext (FObj (AList.update k v kvs) # fs))"
| "reduce v (FObj kvs # fs) = None"

fun value_start :: "frame list \<Rightarrow> token \<Rightarrow> pstate option" where
  "value_start fs (TVal v) = reduce v fs"
| "value_start fs TLBrack = Some (SFirst (FArr [] # fs))"
| "value_start fs TLBrace = Some (SKeyFirst (FObj [] # fs))"
| "value_start fs t = None"

fun key_start :: "frame list \<Rightarrow> token \<Rightarrow> pstate option" where
  "key_start (FObj kvs # fs) (TVal (JStr k)) = Some (SColon (FKey kvs k # fs))"
| "key_start fs t = None"

fun step :: "pstate \<Rightarrow> token \<Rightarrow> pstate option" where
  "step (SValue fs) t = value_start fs t"
| "step (SFirst (FArr acc # fs)) TRBrack = reduce (JArr acc) fs"
| "step (SFirst fs) t = value_start fs t"
| "step (SKeyFirst (FObj kvs # fs)) TRBrace = reduce (JObj kvs) fs"
| "step (SKeyFirst fs) t = key_start fs t"
| "step (SKey fs) t = key_start fs t"
| "step (SColon fs) TColon = Some (SValue fs)"
| "step (SNext (FArr acc # fs)) TComma = Some (SValue (FArr acc # fs))"
| "step (SNext (FArr acc # fs)) TRBrack = reduce (JArr acc) fs"
| "step (SNext (FObj kvs # fs)) TComma = Some (SKey (FObj kvs # fs))"
| "step (SNext (FObj kvs # fs)) TRBrace = reduce (JObj kvs) fs"
| "step s t = None"

fun run :: "pstate \<Rightarrow> token list \<Rightarrow> pstate option" where
  "run s [] = Some s"
| "run s (t # ts) = (case step s t of None \<Rightarrow> None | Some s' \<Rightarrow> run s' ts)"

definition parse_tokens :: "token list \<Rightarrow> json option" where
  "parse_tokens ts = (case run (SValue []) ts of Some (SDone v) \<Rightarrow> Some v | _ \<Rightarrow> None)"

definition json_loads :: "string \<Rightarrow> error + json" where
  "json_loads text =
     (case lex_from 0 text of
        None \<Rightarrow> Inl JSONDecodeError
      | Some ts \<Rightarrow> (case parse_tokens ts of None \<Rightarrow> Inl JSONDecodeError | Some v \<Rightarrow> Inr v))"

subsection \<open>Printing\<close>

definition digit_char :: "nat \<Rightarrow> char" where
  "digit_char n = DIGITS ! n"

function digits_of :: "nat \<Rightarrow> string" where
  "digits_of n = (if n < 10 then [digit_char n] else digits_of (n div 10) @ [digit_char (n mod 10)])"
  by pat_completeness auto
termination
  by (relation "measure id") auto

definition int_repr :: "int \<Rightarrow> string" where
  "int_repr i = (if i < 0 then ''-'' else []) @ digits_of (nat \<bar>i\<bar>)"

fun frac_digits :: "nat \<Rightarrow> rat \<Rightarrow> string" where
  "frac_digits 0 f = []"
| "frac_digits (Suc k) f =
     (if f = 0 then []
      else (let d = nat \<lfloor>f * 10\<rfloor> in digit_char d # frac_digits k (f * 10 - of_nat d)))"

definition float_repr :: "rat \<Rightarrow> string" where
  \<comment> \<open>\<open>repr\<close> of a float in positional notation: all the digits of a finite decimal\<close>
  "float_repr r =
     (let a = \<bar>r\<bar>; n = nat \<lfloor>a\<rfloor>; f = a - of_nat n
      in (if r < 0 then ''-'' else []) @ digits_of n @ ''.''
         @ (if f = 0 then ''0'' else frac_digits (nat (snd (quotient_of f))) f))"

definition hex_char :: "nat \<Rightarrow> char" where
  "hex_char n = ''0123456789abcdef'' ! n"

definition escape_char :: "char \<Rightarrow> string" where
  \<comment> \<open>\<open>ensure_ascii\<close>: everything outside space to tilde is written as an escape\<close>
  "escape_char c =
     (if c = QUOTE then [BACKSLASH, QUOTE]
      else if c = BACKSLASH then [BACKSLASH, BACKSLASH]
      else if c = CHR 0x0A then [BACKSLASH, CHR ''n'']
      else if c = CHR 0x0D then [BACKSLASH, CHR ''r'']
      else if c = CHR 0x09 then [BACKSLASH, CHR ''t'']
      else if c = CHR 0x08 then [BACKSLASH, CHR ''b'']
      else if c = CHR 0x0C then [BACKSLASH, CHR ''f'']
      else if c \<in> set PRINTABLE then [c]
      else [BACKSLASH, CHR ''u'', CHR ''0'', CHR ''0'',
            hex_char ((of_char c :: nat) div 16), hex_char ((of_char c :: nat) mod 16)])"

definition quote :: "string \<Rightarrow> string" where
  "quote s = QUOTE # concat (map escape_char s) @ [QUOTE]"

fun join :: "string \<Rightarrow> string list \<Rightarrow> string" where
  \<comment> \<open>\<open>sep.join(xs)\<close>\<close>
  "join sep [] = []"
| "join sep [x] = x"
| "join sep (x # y # ys) = x @ sep @ join sep (y # ys)"

fun json_dumps :: "json \<Rightarrow> string" where
  \<comment> \<open>\<open>json.dumps(v)\<close> with the default separators\<close>
  "json_dumps JNull = ''null''"
| "json_dumps (JBool b) = (if b then ''true'' else ''false'')"
| "json_dumps (JInt i) = int_repr i"
| "json_dumps (JFloat r) = float_repr r"
| "json_dumps (JStr s) = quote s"
| "json_dumps (JArr vs) = ''['' @ join '', '' (map json_dumps vs) @ '']''"
| "json_dumps (JObj kvs) =
     ''{'' @ join '', '' (map (\<lambda>kv. quote (fst kv) @ '': '' @ json_dumps (snd kv)) kvs) @ ''}''"

section \<open>Python operations on loaded values\<close>

fun truthy :: "json \<Rightarrow> bool" where
  \<comment> \<open>the truth value that \<open>if v\<close> and \<open>not v\<close> test\<close>
  "truthy JNull = False"
| "truthy (JBool b) = b"
| "truthy (JInt i) = (i \<noteq> 0)"
| "truthy (JFloat r) = (r \<noteq> 0)"
| "truthy (JStr s) = (s \<noteq> [])"
| "truthy (JArr vs) = (vs \<noteq> [])"
| "truthy (JObj kvs) = (kvs \<noteq> [])"

fun dict_get :: "json \<Rightarrow> string \<Rightarrow> json \<Rightarrow> error + json" where
  \<comment> \<open>\<open>d.get(k, default)\<close>: only a \<open>dict\<close> has the method\<close>
  "dict_get (JObj kvs) k d = Inr (case map_of kvs k of None \<Rightarrow> d | Some v \<Rightarrow> v)"
| "dict_get v k d = Inl AttributeError"

fun subscript :: "json \<Rightarrow> string \<Rightarrow> error + json" where
  \<comment> \<open>\<open>d[k]\<close> with a string \<open>k\<close>\<close>
  "subscript (JObj kvs) k = (case map_of kvs k of None \<Rightarrow> Inl (KeyError k) | Some v \<Rightarrow> Inr v)"
| "subscript v k = Inl TypeError"

fun num_val :: "json \<Rightarrow> rat option" where
  \<comment> \<open>the number that arithmetic and comparison see; \<open>bool\<close> is a subclass of \<open>int\<close>\<close>
  "num_val (JBool b) = Some (if b then 1 else 0)"
| "num_val (JInt i) = Some (of_int i)"
| "num_val (JFloat r) = Some r"
| "num_val v = None"


definition py_gt :: "json \<Rightarrow> rat \<Rightarrow> error + bool" where
  "py_gt v r = (case num_val v of None \<Rightarrow> Inl TypeError | Some x \<Rightarrow> Inr (r < x))"

definition py_neg :: "json \<Rightarrow> error + rat" where
  "py_neg v = (case num_val v of None \<Rightarrow> Inl TypeError | Some x \<Rightarrow> Inr (- x))"

fun py_add1 :: "json \<Rightarrow> error + json" where
  \<comment> \<open>\<open>v + 1\<close>\<close>
  "py_add1 (JInt i) = Inr (JInt (i + 1))"
| "py_add1 (JBool b) = Inr (JInt ((if b then 1 else 0) + 1))"
| "py_add1 (JFloat r) = Inr (JFloat (r + 1))"
| "py_add1 v = Inl TypeError"

fun py_len :: "json \<Rightarrow> error + nat" where
  "py_len (JStr s) = Inr (length s)"
| "py_len (JArr vs) = Inr (length vs)"
| "py_len (JObj kvs) = Inr (length kvs)"
| "py_len v = Inl TypeError"

fun py_iter :: "json \<Rightarrow> error + json list" where
  \<comment> \<open>\<open>for x in v\<close>: the elements of a list, the characters of a string, the keys of a dict\<close>
  "py_iter (JArr vs) = Inr vs"
| "py_iter (JStr s) = Inr (map (\<lambda>c. JStr [c]) s)"
| "py_iter (JObj kvs) = Inr (map (\<lambda>kv. JStr (fst kv)) kvs)"
| "py_iter v = Inl TypeError"

fun filter_err :: "('a \<Rightarrow> error + bool) \<Rightarrow> 'a list \<Rightarrow> error + 'a list" where
  \<comment> \<open>\<open>[x for x in xs if p(x)]\<close>, where \<open>p\<close> can raise\<close>
  "filter_err p [] = Inr []"
| "filter_err p (x # xs) =
     bind_err (p x) (\<lambda>keep. bind_err (filter_err p xs) (\<lambda>ys. Inr (if keep then x # ys else ys)))"

definition slice_from :: "int \<Rightarrow> 'a list \<Rightarrow> 'a list" where
  \<comment> \<open>\<open>xs[i:]\<close>: a negative \<open>i\<close> counts from the end\<close>
  "slice_from i xs = (if 0 \<le> i then drop (nat i) xs else drop (nat (int (length xs) + i)) xs)"

text \<open>
  Three facilities of the interpreter are taken as they are, without a model of what they
  compute: the order in which a \<open>set\<close> of strings is iterated, \<open>str(v)\<close>, and the
  format \<open>.0%\<close> of a number.
\<close>

record pylib =
  list_of_set :: "string list \<Rightarrow> string list"
  str_of :: "json \<Rightarrow> string"
  percent :: "rat \<Rightarrow> string"

section \<open>The data directory\<close>

text \<open>
  The log is held as its text.  The three documents are written whole by
  \<open>write_text(json.dumps(d, indent=2))\<close> and read whole by \<open>json.loads(read_text())\<close>;
  each is held as the value \<open>d\<close> (\<open>None\<close> while the file does not exist).  The trace
  records the calls of the model adapter and the writes, in order.  Failures of the
  storage itself are not modelled.
\<close>

record config =
  reflection_window :: int
  min_belief_confidence :: rat

datatype path = LogFile | BeliefFile | PatternFile | TensionFile

datatype prompt =
    ReflectionPrompt nat "(json \<times> string \<times> bool \<times> string \<times> json) list" "json option" rat
  | SynthesisPrompt json nat

datatype event = Called prompt | Wrote path

record world =
  log_file :: "string option"
  belief_file :: "json option"
  pattern_file :: "json option"
  tension_file :: "json option"
  trace :: "event list"

type_synonym 'a io = "world \<Rightarrow> (error + 'a) \<times> world"

definition io_ret :: "'a \<Rightarrow> 'a io" where
  "io_ret x w = (Inr x, w)"

definition io_lift :: "error + 'a \<Rightarrow> 'a io" where
  \<comment> \<open>a computation that does not touch the files\<close>
  "io_lift m w = (m, w)"

definition io_read :: "(world \<Rightarrow> error + 'a) \<Rightarrow> 'a io" where
  "io_read f w = (f w, w)"

definition io_bind :: "'a io \<Rightarrow> ('a \<Rightarrow> 'b io) \<Rightarrow> 'b io" where
  "io_bind m f w = (case m w of (Inl e, w') \<Rightarrow> (Inl e, w') | (Inr x, w') \<Rightarrow> f x w')"

definition io_call :: "(prompt \<Rightarrow> error + string) \<Rightarrow> prompt \<Rightarrow> string io" where
  \<comment> \<open>\<open>_call(prompt, ...)\<close>: the adapter returns text or raises\<close>
  "io_call llm p w = (llm p, w\<lparr>trace := trace w @ [Called p]\<rparr>)"

definition NL :: string where
  "NL = [CHR 0x0A]"

section \<open>core.py: the log\<close>

definition log_interaction ::
  "pylib \<Rightarrow> string \<Rightarrow> string \<Rightarrow> string \<Rightarrow> string \<Rightarrow> string list option \<Rightarrow> world \<Rightarrow> json \<times> world" where
  \<comment> \<open>\<open>ident\<close> is \<open>str(uuid.uuid4())[:8]\<close> and \<open>now\<close> the timestamp, as the call draws them\<close>
  "log_interaction py ident now question answer extra_tags w =
     (let tags = auto_tag (question @ '' '' @ answer);
          tags = (case extra_tags of
                    None \<Rightarrow> tags
                  | Some extra \<Rightarrow> if extra \<noteq> [] then list_of_set py (tags @ extra) else tags);
          entry = JObj [(''id'', JStr ident),
                        (''timestamp'', JStr now),
                        (''question'', JStr question),
                        (''answer'', JStr answer),
                        (''tags'', JArr (map JStr tags)),
                        (''confidence'', JFloat (score_confidence question answer))]
      in (entry,
          w\<lparr>log_file := Some ((case log_file w of None \<Rightarrow> [] | Some text \<Rightarrow> text)
                               @ json_dumps entry @ NL),
            trace := trace w @ [Wrote LogFile]\<rparr>))"

definition LINE_BREAKS :: string where
  \<comment> \<open>the line boundaries of \<open>str.splitlines\<close> below code point 256\<close>
  "LINE_BREAKS = [CHR 0x0A, CHR 0x0B, CHR 0x0C, CHR 0x0D, CHR 0x1C, CHR 0x1D, CHR 0x1E, CHR 0x85]"

fun split_lines :: "string \<Rightarrow> string \<Rightarrow> string list" where
  \<comment> \<open>the lines between the given boundaries; CR LF is one boundary\<close>
  "split_lines brk [] = []"
| "split_lines brk (c # cs) =
     (if c \<in> set brk then
        [] # (case cs of
                [] \<Rightarrow> []
              | d # ds \<Rightarrow> if c = CHR 0x0D \<and> d = CHR 0x0A then split_lines brk ds
                          else split_lines brk (d # ds))
      else (case split_lines brk cs of [] \<Rightarrow> [[c]] | l # ls \<Rightarrow> (c # l) # ls))"

definition splitlines :: "string \<Rightarrow> string list" where
  "splitlines s = split_lines LINE_BREAKS s"

definition file_lines :: "string \<Rightarrow> string list" where
  \<comment> \<open>iterating over an open text file: universal newlines\<close>
  "file_lines s = split_lines [CHR 0x0A, CHR 0x0D] s"

definition load_log :: "int option \<Rightarrow> world \<Rightarrow> error + json list" where
  "load_log n w =
     (case log_file w of
        None \<Rightarrow> Inr []
      | Some text \<Rightarrow>
          (let lines = splitlines (strip text)
           in bind_err (map_err json_loads (filter (\<lambda>l. strip l \<noteq> []) lines))
                (\<lambda>entries. Inr (case n of
                                  None \<Rightarrow> entries
                                | Some k \<Rightarrow> if k \<noteq> 0 then slice_from (- k) entries
                                            else entries))))"

definition log_count :: "world \<Rightarrow> nat" where
  "log_count w =
     (case log_file w of
        None \<Rightarrow> 0
      | Some text \<Rightarrow> length (filter (\<lambda>l. strip l \<noteq> []) (file_lines text)))"

section \<open>reflection.py\<close>

definition load_beliefs :: "world \<Rightarrow> error + json" where
  "load_beliefs w =
     (case belief_file w of
        None \<Rightarrow> Inr (JArr [])
      | Some doc \<Rightarrow> dict_get doc ''beliefs'' (JArr []))"

definition io_write :: "path \<Rightarrow> json \<Rightarrow> unit io" where
  "io_write p doc w =
     (Inr (),
      (case p of
         BeliefFile \<Rightarrow> w\<lparr>belief_file := Some doc\<rparr>
       | PatternFile \<Rightarrow> w\<lparr>pattern_file := Some doc\<rparr>
       | TensionFile \<Rightarrow> w\<lparr>tension_file := Some doc\<rparr>
       | LogFile \<Rightarrow> w)\<lparr>trace := trace w @ [Wrote p]\<rparr>)"





fun strip_fences :: "nat \<Rightarrow> string \<Rightarrow> string" where
  \<comment> \<open>\<open>re.sub("```(?:json)?", "", raw)\<close>; \<open>skip\<close> counts what is left of the fence\<close>
  "strip_fences skip [] = []"
| "strip_fences skip (c # cs) =
     (if 0 < skip then strip_fences (skip - 1) cs
      else if take 3 (c # cs) = ''```''
      then (if take 4 (drop 2 cs) = ''json'' then strip_fences 6 cs else strip_fences 2 cs)
      else c # strip_fences 0 cs)"

definition unfence :: "string \<Rightarrow> string" where
  "unfence raw = strip (rstrip_chars {CHR ''`''} (strip (strip_fences 0 raw)))"

definition span_between :: "char \<Rightarrow> char \<Rightarrow> string \<Rightarrow> string option" where
  \<comment> \<open>\<open>re.search\<close> for an opening character, anything, a closing character, with
      \<open>re.DOTALL\<close>: from the first opening to the last closing character after it\<close>
  "span_between a b t =
     (let s = dropWhile (\<lambda>c. c \<noteq> a) t
      in if s = [] then None
         else (let r = rev (dropWhile (\<lambda>c. c \<noteq> b) (rev (tl s)))
               in if r = [] then None else Some (a # r)))"



definition format_pct :: "pylib \<Rightarrow> json \<Rightarrow> error + string" where
  "format_pct py v = (case num_val v of None \<Rightarrow> Inl TypeError | Some r \<Rightarrow> Inr (percent py r))"

definition sorted_by_confidence :: "json \<Rightarrow> error + json list" where
  \<comment> \<open>\<open>sorted(v, key=lambda x: -x.get("confidence", 0))\<close>: the keys are computed first,
      and the sort is stable\<close>
  "sorted_by_confidence v =
     bind_err (py_iter v) (\<lambda>items.
     bind_err (map_err (\<lambda>x. bind_err (dict_get x ''confidence'' (JInt 0)) py_neg) items)
       (\<lambda>keys.
     Inr (map snd (sort_key fst (zip keys items)))))"

definition format_belief_block :: "pylib \<Rightarrow> json \<Rightarrow> world \<Rightarrow> error + string" where
  \<comment> \<open>the argument \<open>beliefs\<close> is \<open>JNull\<close> for Python's \<open>None\<close>\<close>
  "format_belief_block py beliefs0 w =
     bind_err (if beliefs0 = JNull then load_beliefs w else Inr beliefs0) (\<lambda>beliefs.
     if \<not> truthy beliefs then Inr []
     else
     bind_err (sorted_by_confidence beliefs) (\<lambda>ordered.
     bind_err (map_err (\<lambda>b.
                 bind_err (subscript b ''belief'') (\<lambda>text.
                 bind_err (dict_get b ''confidence'' (JInt 0)) (\<lambda>c.
                 bind_err (format_pct py c) (\<lambda>pct.
                 Inr (''- '' @ str_of py text @ '' ('' @ pct @ '')''))))) ordered) (\<lambda>lines.
     Inr (join NL ((''## What I know about you (domain beliefs)'' @ NL) # lines) @ NL @ NL))))"

section \<open>synthesis.py\<close>

definition DEFAULT_PATTERNS :: json where
  "DEFAULT_PATTERNS =
     JObj [(''last_updated'', JNull),
           (''synthesis_count'', JInt 0),
           (''abstraction_ladder'',
              JObj [(''observations'', JArr []), (''themes'', JArr []),
                    (''patterns'', JArr []), (''biases'', JArr [])]),
           (''cognitive_patterns'', JArr []),
           (''decision_archetype'',
              JObj [(''dominant'', JNull), (''distribution'', JObj []), (''history'', JArr [])]),
           (''experience_compression'',
              JObj [(''total_events'', JInt 0), (''total_patterns'', JInt 0),
                    (''compression_ratio'', JNull)])]"

definition load_patterns :: "world \<Rightarrow> json" where
  "load_patterns w = (case pattern_file w of None \<Rightarrow> DEFAULT_PATTERNS | Some doc \<Rightarrow> doc)"

definition load_tensions :: "world \<Rightarrow> error + json" where
  "load_tensions w =
     (case tension_file w of
        None \<Rightarrow> Inr (JArr [])
      | Some doc \<Rightarrow> dict_get doc ''tensions'' (JArr []))"

definition save_synthesis :: "json \<Rightarrow> json \<Rightarrow> nat \<Rightarrow> string \<Rightarrow> string \<Rightarrow> unit io" where
  \<comment> \<open>\<open>now1\<close> and \<open>now2\<close> are the two timestamps that the function draws\<close>
  "save_synthesis result synthesis_count total_events now1 now2 =
     io_bind (io_lift (dict_get result ''cognitive_patterns'' (JArr []))) (\<lambda>patterns.
     io_bind (io_lift (dict_get result ''tensions'' (JArr []))) (\<lambda>tensions.
     io_bind (io_lift (dict_get result ''decision_archetype'' (JObj []))) (\<lambda>archetype.
     io_bind (io_lift (dict_get result ''abstraction_ladder'' (JObj []))) (\<lambda>ladder.
     io_bind (io_lift (py_len patterns)) (\<lambda>total_patterns.
     io_bind (io_write PatternFile
               (JObj [(''last_updated'', JStr now1),
                      (''synthesis_count'', synthesis_count),
                      (''abstraction_ladder'', ladder),
                      (''cognitive_patterns'', patterns),
                      (''decision_archetype'', archetype),
                      (''experience_compression'',
                         JObj [(''total_events'', JInt (int total_events)),
                               (''total_patterns'', JInt (int total_patterns)),
                               (''compression_ratio'',
                                  JStr (if truthy patterns
                                        then digits_of total_events @ '':''
                                             @ digits_of total_patterns
                                        else ''N/A''))])])) (\<lambda>u.
     io_write TensionFile
       (JObj [(''last_updated'', JStr now2),
              (''tensions'', tensions),
              (''resolved'', JArr [])])))))))"

definition parse_result :: "string \<Rightarrow> json" where
  "parse_result raw0 =
     (let raw = unfence raw0
      in case json_loads raw of
           Inr data \<Rightarrow> data
         | Inl err \<Rightarrow>
             (case span_between (CHR ''{'') (CHR ''}'') raw of
                None \<Rightarrow> JObj []
              | Some m \<Rightarrow> (case json_loads m of Inr v \<Rightarrow> v | Inl err' \<Rightarrow> JObj [])))"

definition run_synthesis ::
  "config \<Rightarrow> (prompt \<Rightarrow> error + string) \<Rightarrow> bool \<Rightarrow> string \<Rightarrow> string \<Rightarrow> json io" where
  \<comment> \<open>\<open>verbose\<close> matters where the printed \<open>len(beliefs)\<close> can raise\<close>
  "run_synthesis cfg llm verbose now1 now2 =
     io_bind (io_read load_beliefs) (\<lambda>beliefs.
     if \<not> truthy beliefs then io_ret (JObj [])
     else
     io_bind (io_read (\<lambda>w. Inr (log_count w))) (\<lambda>total_events.
     io_bind (io_read (\<lambda>w. dict_get (load_patterns w) ''synthesis_count'' (JInt 0)))
       (\<lambda>synth_count.
     io_bind (io_lift (if verbose then py_len beliefs else Inr 0)) (\<lambda>n_beliefs.
     io_bind (io_call llm (SynthesisPrompt beliefs total_events)) (\<lambda>raw.
     (let result = parse_result raw
      in if \<not> truthy result then io_ret (JObj [])
         else
         io_bind (io_lift (py_add1 synth_count)) (\<lambda>new_count.
         io_bind (save_synthesis result new_count total_events now1 now2) (\<lambda>u.
         io_bind (io_lift (bind_err (dict_get result ''cognitive_patterns'' (JArr [])) py_len))
           (\<lambda>n_patterns.
         io_bind (io_lift (bind_err (dict_get result ''tensions'' (JArr [])) py_len))
           (\<lambda>n_tensions.
         io_ret result))))))))))"

definition format_cognitive_block :: "pylib \<Rightarrow> world \<Rightarrow> error + string" where
  "format_cognitive_block py w =
     (let patterns_data = load_patterns w
      in bind_err (load_tensions w) (\<lambda>tensions.
         bind_err (dict_get patterns_data ''cognitive_patterns'' (JArr [])) (\<lambda>patterns.
         bind_err (dict_get patterns_data ''decision_archetype'' (JObj [])) (\<lambda>archetype.
         if \<not> truthy patterns then Inr []
         else
         bind_err (sorted_by_confidence patterns) (\<lambda>ordered.
         bind_err (map_err (\<lambda>p.
                     bind_err (subscript p ''pattern'') (\<lambda>text.
                     bind_err (subscript p ''confidence'') (\<lambda>c.
                     bind_err (format_pct py c) (\<lambda>pct.
                     Inr (''- '' @ str_of py text @ '' ('' @ pct @ '')''))))) ordered)
           (\<lambda>pattern_lines.
         bind_err (dict_get archetype ''dominant'' JNull) (\<lambda>dominant.
         bind_err (if truthy dominant
                   then bind_err (subscript archetype ''dominant'') (\<lambda>d.
                          Inr [NL @ ''Dominant decision archetype: '' @ str_of py d])
                   else Inr []) (\<lambda>archetype_lines.
         bind_err (py_iter tensions) (\<lambda>ts.
         bind_err (filter_err (\<lambda>t. bind_err (dict_get t ''severity'' (JInt 0))
                                      (\<lambda>s. py_gt s (1 / 2))) ts) (\<lambda>active_tensions.
         bind_err (if active_tensions \<noteq> []
                   then bind_err (map_err (\<lambda>t. bind_err (subscript t ''strategic_question'')
                                    (\<lambda>q. Inr (''- '' @ str_of py q))) active_tensions)
                          (\<lambda>qs. Inr ((NL @ ''Active cognitive tensions:'') # qs))
                   else Inr []) (\<lambda>tension_lines.
         Inr (join NL
               (((''## Cognitive Signature (how this user thinks)'' @ NL) # pattern_lines)
                @ archetype_lines @ tension_lines
                @ [NL @ ''When responding: align with cognitive style. ''
                   @ ''Flag contradictions to archetype. ''
                   @ ''Apply cross-domain transfer when relevant. ''
                   @ ''No lists. Direct prose only. Name patterns by label.'' @ NL])))))))))))))"

section \<open>Example data\<close>

text \<open>
  A small data directory for running the functions: a log of one interaction, as
  \<open>log_interaction\<close> writes it for the question "q" and the answer "a", and a belief
  document left by three earlier reflections.  \<open>example_py\<close> is one choice of the three
  interpreter facilities.
\<close>

definition example_py :: pylib where
  "example_py =
     \<lparr>list_of_set = remdups,
      str_of = (\<lambda>v. case v of JStr s \<Rightarrow> s | _ \<Rightarrow> json_dumps v),
      percent = (\<lambda>r. int_repr \<lfloor>r * 100\<rfloor> @ ''%'')\<rparr>"

definition example_cfg :: config where
  "example_cfg = \<lparr>reflection_window = 50, min_belief_confidence = 6 / 10\<rparr>"

definition example_entry :: json where
  "example_entry =
     JObj [(''id'', JStr ''1a2b3c4d''),
           (''timestamp'', JStr ''t0''),
           (''question'', JStr ''q''),
           (''answer'', JStr ''a''),
           (''tags'', JArr []),
           (''confidence'', JFloat (85 / 100))]"

definition example_belief_doc :: json where
  "example_belief_doc =
     JObj [(''last_updated'', JStr ''t0''),
           (''reflection_count'', JInt 3),
           (''beliefs'', JArr [JObj [(''belief'', JStr ''likes tea''),
                                     (''confidence'', JFloat (7 / 10))],
                               JObj [(''belief'', JStr ''uses python''),
                                     (''confidence'', JFloat (9 / 10))]])]"

definition empty_world :: world where
  "empty_world =
     \<lparr>log_file = None, belief_file = None, pattern_file = None, tension_file = None,
      trace = []\<rparr>"

definition example_world :: world where
  "example_world =
     empty_world\<lparr>log_file := Some (json_dumps example_entry @ NL),
                 belief_file := Some example_belief_doc\<rparr>"

definition confidence_of :: "json \<Rightarrow> rat" where
  \<comment> \<open>the number by which the context blocks order an item: \<open>x.get("confidence", 0)\<close>\<close>
  "confidence_of b =
     (case dict_get b ''confidence'' (JInt 0) of
        Inl e \<Rightarrow> 0
      | Inr c \<Rightarrow> (case num_val c of None \<Rightarrow> 0 | Some x \<Rightarrow> x))"

section \<open>Sequences of appends\<close>

text \<open>
  A call of \<open>log_interaction\<close> is given by the identifier and the timestamp it draws, the
  question, the answer and the extra tags.  \<open>log_all\<close> makes the calls in order and
  returns the entries that the calls returned.
\<close>

type_synonym call = "string \<times> string \<times> string \<times> string \<times> string list option"

fun log_all :: "pylib \<Rightarrow> call list \<Rightarrow> world \<Rightarrow> json list \<times> world" where
  "log_all py [] w = ([], w)"
| "log_all py ((ident, now, question, answer, extra_tags) # calls) w =
     (let (e, w1) = log_interaction py ident now question answer extra_tags w;
          (es, w2) = log_all py calls w1
      in (e # es, w2))"

section \<open>Notions for the proofs about the log\<close>

definition entry_of :: "string \<Rightarrow> string \<Rightarrow> string \<Rightarrow> string \<Rightarrow> string list \<Rightarrow> int \<Rightarrow> json" where
  \<comment> \<open>the shape of a logged entry, with the confidence in hundredths\<close>
  "entry_of ident now question answer tags k =
     JObj [(''id'', JStr ident),
           (''timestamp'', JStr now),
           (''question'', JStr question),
           (''answer'', JStr answer),
           (''tags'', JArr (map JStr tags)),
           (''confidence'', JFloat (of_int k / 100))]"

definition is_entry :: "json \<Rightarrow> bool" where
  "is_entry e = (\<exists>ident now question answer tags k.
       e = entry_of ident now question answer tags k \<and> 30 \<le> k \<and> k \<le> 95)"

definition log_text :: "json list \<Rightarrow> string" where
  \<comment> \<open>the text of a log that holds the given entries, one line each\<close>
  "log_text es = concat (map (\<lambda>e. json_dumps e @ NL) es)"

definition tapp :: "token list \<Rightarrow> token list option \<Rightarrow> token list option" where
  "tapp ts r = map_option ((@) ts) r"

fun tag_toks :: "string list \<Rightarrow> token list" where
  "tag_toks [] = []"
| "tag_toks [t] = [TVal (JStr t)]"
| "tag_toks (t # u # us) = TVal (JStr t) # TComma # tag_toks (u # us)"

definition entry_toks :: "string \<Rightarrow> string \<Rightarrow> string \<Rightarrow> string \<Rightarrow> string list \<Rightarrow> int \<Rightarrow> token list" where
  "entry_toks ident now question answer tags k =
     [TLBrace, TVal (JStr ''id''), TColon, TVal (JStr ident), TComma,
      TVal (JStr ''timestamp''), TColon, TVal (JStr now), TComma,
      TVal (JStr ''question''), TColon, TVal (JStr question), TComma,
      TVal (JStr ''answer''), TColon, TVal (JStr answer), TComma,
      TVal (JStr ''tags''), TColon, TLBrack] @ tag_toks tags
     @ [TRBrack, TComma, TVal (JStr ''confidence''), TColon,
        TVal (JFloat (of_int k / 100)), TRBrace]"

definition solid :: "string \<Rightarrow> bool" where
  \<comment> \<open>a line of the log: printable, not empty, no space at either end\<close>
  "solid d = (d \<noteq> [] \<and> set d \<subseteq> set PRINTABLE \<and> hd d \<noteq> CHR '' '' \<and> last d \<noteq> CHR '' '')"

definition log_ok :: "world \<Rightarrow> json list \<Rightarrow> bool" where
  \<comment> \<open>the log is as the appends of the given entries leave it\<close>
  "log_ok w es = ((log_file w = None \<and> es = [] \<or> log_file w = Some (log_text es))
                  \<and> list_all is_entry es)"

definition lines_text :: "string list \<Rightarrow> string" where
  \<comment> \<open>the given lines, each ended by a newline\<close>
  "lines_text ds = concat (map (\<lambda>d. d @ NL) ds)"

section \<open>Properties of the confidence score\<close>

lemma round2_hundredth: "round2 (of_int k / 100) = of_int k / 100"
  by (simp add: round2_def)

lemma clamp_hundredths:
  "max (3 / 10) (min (95 / 100)
       (85 / 100 - (of_nat h * (8 / 100)) + (if ok then 5 / 100 else 0)))
     = (of_int (max 30 (min 95 (85 - 8 * int h + (if ok then 5 else 0)))) / 100 :: rat)"
  by (simp add: max_def min_def field_simps)

lemma score_of_int:
  "score_of h ok = of_int (max 30 (min 95 (85 - 8 * int h + (if ok then 5 else 0)))) / 100"
  unfolding score_of_def by (simp only: clamp_hundredths round2_hundredth)

lemma score_of_clamped:
  "score_of h ok = max (3 / 10) (min (95 / 100)
       (85 / 100 - (of_nat h * (8 / 100)) + (if ok then 5 / 100 else 0)))"
  by (simp only: score_of_int clamp_hundredths)

lemma score_of_mono: "h1 \<le> h2 \<Longrightarrow> score_of h2 ok \<le> score_of h1 ok"
  by (simp add: score_of_int divide_right_mono max_def min_def)

lemma score_of_bounds: "3 / 10 \<le> score_of h ok \<and> score_of h ok \<le> 95 / 100"
proof -
  define k where "k = max 30 (min 95 (85 - 8 * int h + (if ok then 5 else 0)))"
  have "30 \<le> k" "k \<le> 95" by (simp_all add: k_def)
  then have "(3 / 10 :: rat) \<le> of_int k / 100 \<and> (of_int k / 100 :: rat) \<le> 95 / 100"
    by simp
  then show ?thesis by (simp only: score_of_int k_def)
qed

text \<open>
  C4.  For every question and answer the score is 0.85, minus 0.08 for each match of the
  hedging pattern in the lower-cased answer (the question is not read), plus 0.05 exactly
  when the answer has more than 50 and fewer than 600 words, clamped to [0.30, 0.95] and
  rounded to two decimals.  The clamped value is already a whole number of hundredths, so
  the rounding leaves it as it is, and the score lies in [0.30, 0.95].  (In Python the
  clamped value is a float within a few units in the last place of that number of
  hundredths, and \<open>round(x, 2)\<close> returns the float that is written with its two
  decimals.)
\<close>

theorem score_confidence_value:
  fixes question answer :: string
  defines "h \<equiv> length (re_findall HEDGES (lower answer))"
  defines "bonus \<equiv> (if 50 < length (split answer) \<and> length (split answer) < 600
                     then 5 / 100 else (0::rat))"
  shows "score_confidence question answer
           = round2 (max (3 / 10) (min (95 / 100) (85 / 100 - of_nat h * (8 / 100) + bonus)))
       \<and> score_confidence question answer
           = max (3 / 10) (min (95 / 100) (85 / 100 - of_nat h * (8 / 100) + bonus))
       \<and> 3 / 10 \<le> score_confidence question answer
       \<and> score_confidence question answer \<le> 95 / 100"
proof -
  let ?ok = "50 < length (split answer) \<and> length (split answer) < 600"
  let ?X = "max (3 / 10) (min (95 / 100) (85 / 100 - of_nat h * (8 / 100) + bonus))"
  have s: "score_confidence question answer = score_of h ?ok"
    by (simp add: score_confidence_def Let_def h_def)
  have r: "score_of h ?ok = round2 ?X"
    unfolding score_of_def bonus_def by (rule refl)
  have c: "score_of h ?ok = ?X"
    unfolding bonus_def by (rule score_of_clamped)
  have b: "3 / 10 \<le> score_of h ?ok" "score_of h ?ok \<le> 95 / 100"
    using score_of_bounds [of h ?ok] by blast+
  show ?thesis
    unfolding s by (intro conjI) (rule r, rule c, rule b(1), rule b(2))
qed

text \<open>
  C7.  With the word-count bonus fixed, the score does not increase with the number of
  hedging matches in the answer: of two answers on the same side of the word-count test, the
  one with at least as many matches scores at most as much.
\<close>

theorem score_confidence_antimono:
  assumes "length (re_findall HEDGES (lower a1)) \<le> length (re_findall HEDGES (lower a2))"
    and "(50 < length (split a1) \<and> length (split a1) < 600)
         = (50 < length (split a2) \<and> length (split a2) < 600)"
  shows "score_confidence q2 a2 \<le> score_confidence q1 a1"
  using assms score_of_mono by (simp add: score_confidence_def Let_def)

theorem score_confidence_antimono_witness:
  "length (re_findall HEDGES (lower ''Maybe.''))
     \<le> length (re_findall HEDGES (lower ''It might work, or perhaps not.''))
   \<and> score_confidence ''why?'' ''It might work, or perhaps not.'' = 69 / 100
   \<and> score_confidence ''how?'' ''Maybe.'' = 77 / 100
   \<and> score_confidence ''why?'' ''It might work, or perhaps not.''
       \<le> score_confidence ''how?'' ''Maybe.''"
proof -
  have h1: "re_findall HEDGES (lower ''Maybe.'') = [''maybe'']"
    by code_simp
  have h2: "re_findall HEDGES (lower ''It might work, or perhaps not.'') = [''might'', ''perhaps'']"
    by code_simp
  have w1: "split ''Maybe.'' = [''Maybe.'']"
    by code_simp
  have w2: "length (split ''It might work, or perhaps not.'') = 6"
    by code_simp
  have le: "score_confidence ''why?'' ''It might work, or perhaps not.''
              \<le> score_confidence ''how?'' ''Maybe.''"
    by (rule score_confidence_antimono) (simp_all add: h1 h2 w1 w2)
  have v2: "score_confidence ''why?'' ''It might work, or perhaps not.'' = 69 / 100"
    by (simp add: score_confidence_def Let_def h2 w2 score_of_int)
  have v1: "score_confidence ''how?'' ''Maybe.'' = 77 / 100"
    by (simp add: score_confidence_def Let_def h1 w1 score_of_int)
  show ?thesis using le by (simp add: h1 h2 v1 v2)
qed

section \<open>Properties of the tags\<close>

lemma not_word_space: "\<not> is_word (CHR '' '')"
  by (simp add: is_word_def isalnum_def DIGITS_def ASCII_UPPER_def ASCII_LOWER_def
      LATIN_UPPER_def LATIN_LOWER_def)

lemma lower_char_space: "lower_char (CHR '' '') = CHR '' ''"
  by (simp add: lower_char_def ASCII_UPPER_def ASCII_LOWER_def LATIN_UPPER_def LATIN_LOWER_def)

lemma wb_append: "\<not> is_word c \<Longrightarrow> wb w (cs @ c # s) = wb w cs"
  by (cases cs) auto

lemma ms_append:
  "\<not> is_word c \<Longrightarrow> (w', r') \<in> set (ms r (w, cs))
     \<Longrightarrow> (w', r' @ c # s) \<in> set (ms r (w, cs @ c # s))"
proof (induction r arbitrary: w cs w' r')
  case (Chr x)
  then show ?case by (cases cs) (auto split: if_splits)
next
  case Dot
  then show ?case by (cases cs) (auto split: if_splits)
next
  case (Seq r1 r2)
  from Seq.prems(2) obtain w1 c1 where a: "(w1, c1) \<in> set (ms r1 (w, cs))"
    and b: "(w', r') \<in> set (ms r2 (w1, c1))" by auto
  from Seq.IH(1)[OF Seq.prems(1) a] Seq.IH(2)[OF Seq.prems(1) b]
  show ?case by auto
next
  case Bound
  then show ?case by (auto simp: wb_append split: if_splits)
qed auto

lemma search_append:
  "\<not> is_word c \<Longrightarrow> search_from r w cs \<Longrightarrow> search_from r w (cs @ c # s)"
proof (induction cs arbitrary: w)
  case Nil
  then obtain w' r' where "(w', r') \<in> set (ms r (w, []))"
    by (cases "ms r (w, [])") auto
  from ms_append[OF Nil(1) this, of s] show ?case by auto
next
  case (Cons d ds)
  show ?case
  proof (cases "ms r (w, d # ds) = []")
    case True
    with Cons show ?thesis by simp
  next
    case False
    then obtain w' r' where "(w', r') \<in> set (ms r (w, d # ds))"
      by (cases "ms r (w, d # ds)") auto
    from ms_append[OF Cons.prems(1) this, of s] show ?thesis by auto
  qed
qed

lemma search_prepend:
  "\<not> is_word c \<Longrightarrow> search_from r False cs \<Longrightarrow> search_from r w (xs @ c # cs)"
  by (induction xs arbitrary: w) auto

lemma set_auto_tag:
  "set (auto_tag t) = {tag. \<exists>pat. (tag, pat) \<in> set TAG_PATTERNS \<and> re_search pat (lower t)}"
  by (auto simp: auto_tag_def Let_def image_iff)

lemma lower_join: "lower (a @ '' '' @ b) = lower a @ CHR '' '' # lower b"
  by (simp add: lower_def lower_char_space)

lemma auto_tag_left: "set (auto_tag a) \<subseteq> set (auto_tag (a @ '' '' @ b))"
  unfolding set_auto_tag lower_join re_search_def
  using search_append[OF not_word_space] by blast

lemma auto_tag_right: "set (auto_tag b) \<subseteq> set (auto_tag (a @ '' '' @ b))"
  unfolding set_auto_tag lower_join re_search_def
  using search_prepend[OF not_word_space] by blast

text \<open>
  C5, as stated, fails: the labels depend on the order of concatenation, because a match
  can span the junction.  With the question "want" and the answer "to", the text
  "want to" (as \<open>log_interaction\<close> joins them, with one space) has the labels preference
  and goal, and "to want" has preference only.  Joined without a separator, "want " and
  "to" give preference and goal in one order and nothing in the other.
\<close>

theorem auto_tag_order_counterexample:
  "set (auto_tag (''want'' @ '' '' @ ''to'')) \<noteq> set (auto_tag (''to'' @ '' '' @ ''want''))
   \<and> set (auto_tag (''want '' @ ''to'')) \<noteq> set (auto_tag (''to'' @ ''want ''))"
proof -
  have a: "auto_tag (''want'' @ '' '' @ ''to'') = [''preference'', ''goal'']"
    by code_simp
  have b: "auto_tag (''to'' @ '' '' @ ''want'') = [''preference'']"
    by code_simp
  have c: "auto_tag (''want '' @ ''to'') = [''preference'', ''goal'']"
    by code_simp
  have d: "auto_tag (''to'' @ ''want '') = []"
    by code_simp
  show ?thesis unfolding a b c d by simp
qed

text \<open>
  C5, amended.  The labels are a function of the text alone, and every label that the
  question alone or the answer alone yields is among the labels of both
  question + " " + answer and answer + " " + question.  (Labels whose match spans the
  junction are the only ones that can differ.)
\<close>

theorem auto_tag_both_orders:
  "set (auto_tag question) \<union> set (auto_tag answer)
     \<subseteq> set (auto_tag (question @ '' '' @ answer)) \<inter> set (auto_tag (answer @ '' '' @ question))"
  using auto_tag_left [of question answer] auto_tag_right [of answer question]
    auto_tag_left [of answer question] auto_tag_right [of question answer]
  by blast

theorem auto_tag_both_orders_witness:
  "set (auto_tag ''docker'') \<union> set (auto_tag ''a bug'') = {''infrastructure'', ''debugging''}
   \<and> {''infrastructure'', ''debugging''}
       \<subseteq> set (auto_tag (''docker'' @ '' '' @ ''a bug''))
         \<inter> set (auto_tag (''a bug'' @ '' '' @ ''docker''))"
proof -
  have a: "auto_tag ''docker'' = [''infrastructure'']"
    by code_simp
  have b: "auto_tag ''a bug'' = [''debugging'']"
    by code_simp
  show ?thesis
    using auto_tag_both_orders [of "''docker''" "''a bug''"] unfolding a b by auto
qed

section \<open>Properties of reflection and synthesis\<close>

lemmas io_defs = io_bind_def io_ret_def io_lift_def io_read_def io_call_def io_write_def

lemma bind_err_Inr: "bind_err m f = Inr y \<longleftrightarrow> (\<exists>x. m = Inr x \<and> f x = Inr y)"
  by (cases m) (simp_all add: bind_err_def)

lemma map_err_Inr:
  "map_err f xs = Inr ys \<Longrightarrow> list_all2 (\<lambda>x y. f x = Inr y) xs ys"
  by (induction xs arbitrary: ys) (auto simp: bind_err_Inr)








lemma no_beliefs_no_synthesis:
  "load_beliefs w = Inr b \<Longrightarrow> \<not> truthy b \<Longrightarrow>
   run_synthesis cfg llm verbose now1 now2 w = (Inr (JObj []), w)"
  by (simp add: run_synthesis_def io_defs)











text \<open>
  C6.  When there is no belief document, or the document has no key "beliefs" or an empty
  list under it, synthesis returns the empty result and leaves the whole directory as it
  was, its trace included: the adapter is not called and no document is written.
\<close>

theorem synthesis_without_beliefs:
  assumes "belief_file w = None
           \<or> (\<exists>kvs. belief_file w = Some (JObj kvs)
                \<and> (map_of kvs ''beliefs'' = None \<or> map_of kvs ''beliefs'' = Some (JArr [])))"
  shows "run_synthesis cfg llm verbose now1 now2 w = (Inr (JObj []), w)
       \<and> trace (snd (run_synthesis cfg llm verbose now1 now2 w)) = trace w
       \<and> pattern_file (snd (run_synthesis cfg llm verbose now1 now2 w)) = pattern_file w
       \<and> tension_file (snd (run_synthesis cfg llm verbose now1 now2 w)) = tension_file w"
proof -
  from assms have "load_beliefs w = Inr (JArr [])"
    by (auto simp: load_beliefs_def)
  from no_beliefs_no_synthesis [OF this] show ?thesis by simp
qed

theorem synthesis_without_beliefs_witness:
  "run_synthesis example_cfg (\<lambda>p. Inr ''{}'') True ''t1'' ''t2''
     (example_world\<lparr>belief_file := None\<rparr>)
     = (Inr (JObj []), example_world\<lparr>belief_file := None\<rparr>)
   \<and> run_synthesis example_cfg (\<lambda>p. Inr ''{}'') True ''t1'' ''t2''
     (example_world\<lparr>belief_file := Some (JObj [(''beliefs'', JArr [])])\<rparr>)
     = (Inr (JObj []), example_world\<lparr>belief_file := Some (JObj [(''beliefs'', JArr [])])\<rparr>)"
  using synthesis_without_beliefs [of "example_world\<lparr>belief_file := None\<rparr>"
      example_cfg "\<lambda>p. Inr ''{}''" True "''t1''" "''t2''"]
    synthesis_without_beliefs [of "example_world\<lparr>belief_file := Some (JObj [(''beliefs'', JArr [])])\<rparr>"
      example_cfg "\<lambda>p. Inr ''{}''" True "''t1''" "''t2''"]
  by simp

section \<open>Properties of the context blocks\<close>

lemma keys_are_confidences:
  "map_err (\<lambda>x. bind_err (dict_get x ''confidence'' (JInt 0)) py_neg) items = Inr keys
   \<Longrightarrow> keys = map (\<lambda>x. - confidence_of x) items"
proof (induction items arbitrary: keys)
  case Nil
  then show ?case by simp
next
  case (Cons x xs)
  then show ?case
    by (auto simp: bind_err_Inr py_neg_def confidence_of_def split: option.splits)
qed

lemma insort_key_decorated:
  "insort_key fst (f x, x) (map (\<lambda>x. (f x, x)) ys) = map (\<lambda>x. (f x, x)) (insort_key f x ys)"
  by (induction ys) auto

lemma sort_key_decorated:
  "sort_key fst (zip (map f xs) xs) = map (\<lambda>x. (f x, x)) (sort_key f xs)"
  by (induction xs) (simp_all add: insort_key_decorated)

lemma sorted_by_confidence_eq:
  assumes "sorted_by_confidence v = Inr ordered"
  shows "\<exists>items. py_iter v = Inr items \<and> ordered = sort_key (\<lambda>x. - confidence_of x) items"
proof -
  from assms obtain items keys where it: "py_iter v = Inr items"
    and k: "map_err (\<lambda>x. bind_err (dict_get x ''confidence'' (JInt 0)) py_neg) items = Inr keys"
    and o: "ordered = map snd (sort_key fst (zip keys items))"
    unfolding sorted_by_confidence_def by (auto simp: bind_err_Inr)
  from keys_are_confidences [OF k] have "keys = map (\<lambda>x. - confidence_of x) items" .
  with it o show ?thesis by (simp add: sort_key_decorated comp_def)
qed

lemma sorted_by_confidence_desc:
  assumes "sorted_by_confidence v = Inr ordered"
  shows "\<exists>items. py_iter v = Inr items \<and> mset ordered = mset items
           \<and> sorted_wrt (\<lambda>x y. confidence_of y \<le> confidence_of x) ordered"
proof -
  from sorted_by_confidence_eq [OF assms] obtain items where
    it: "py_iter v = Inr items" and o: "ordered = sort_key (\<lambda>x. - confidence_of x) items"
    by blast
  have "sorted (map (\<lambda>x. - confidence_of x) ordered)"
    unfolding o by (rule sorted_sort_key)
  then have "sorted_wrt (\<lambda>x y. confidence_of y \<le> confidence_of x) ordered"
    by (simp add: sorted_wrt_map)
  with it o show ?thesis by auto
qed

lemma format_pct_confidence:
  assumes "dict_get b ''confidence'' (JInt 0) = Inr c" and "format_pct py c = Inr p"
  shows "p = percent py (confidence_of b)"
  using assms by (auto simp: format_pct_def confidence_of_def split: option.splits)

lemma subscript_get: "subscript b k = Inr c \<Longrightarrow> dict_get b k d = Inr c"
  by (cases b) (auto split: option.splits)

lemma belief_line:
  assumes "bind_err (subscript b ''belief'') (\<lambda>text.
           bind_err (dict_get b ''confidence'' (JInt 0)) (\<lambda>c.
           bind_err (format_pct py c) (\<lambda>pct.
           Inr (''- '' @ str_of py text @ '' ('' @ pct @ '')'')))) = Inr l"
  shows "\<exists>t. subscript b ''belief'' = Inr t
           \<and> l = ''- '' @ str_of py t @ '' ('' @ percent py (confidence_of b) @ '')''"
proof -
  from assms obtain t c pct where t: "subscript b ''belief'' = Inr t"
    and c: "dict_get b ''confidence'' (JInt 0) = Inr c"
    and p: "format_pct py c = Inr pct"
    and l: "l = ''- '' @ str_of py t @ '' ('' @ pct @ '')''"
    unfolding bind_err_Inr by blast
  from format_pct_confidence [OF c p] t l show ?thesis by blast
qed

lemma pattern_line:
  assumes "bind_err (subscript b ''pattern'') (\<lambda>text.
           bind_err (subscript b ''confidence'') (\<lambda>c.
           bind_err (format_pct py c) (\<lambda>pct.
           Inr (''- '' @ str_of py text @ '' ('' @ pct @ '')'')))) = Inr l"
  shows "\<exists>t. subscript b ''pattern'' = Inr t
           \<and> l = ''- '' @ str_of py t @ '' ('' @ percent py (confidence_of b) @ '')''"
proof -
  from assms obtain t c pct where t: "subscript b ''pattern'' = Inr t"
    and c: "subscript b ''confidence'' = Inr c"
    and p: "format_pct py c = Inr pct"
    and l: "l = ''- '' @ str_of py t @ '' ('' @ pct @ '')''"
    unfolding bind_err_Inr by blast
  from format_pct_confidence [OF subscript_get [OF c] p] t l show ?thesis by blast
qed

lemma format_belief_block_cong:
  "belief_file w1 = belief_file w2 \<Longrightarrow> format_belief_block py b w1 = format_belief_block py b w2"
  by (simp add: format_belief_block_def load_beliefs_def)

lemma format_cognitive_block_cong:
  "pattern_file w1 = pattern_file w2 \<Longrightarrow> tension_file w1 = tension_file w2
   \<Longrightarrow> format_cognitive_block py w1 = format_cognitive_block py w2"
  by (simp add: format_cognitive_block_def load_patterns_def load_tensions_def)

lemma format_belief_block_empty:
  "(if b0 = JNull then load_beliefs w else Inr b0) = Inr b \<Longrightarrow> \<not> truthy b
   \<Longrightarrow> format_belief_block py b0 w = Inr []"
  by (simp add: format_belief_block_def bind_err_def)

lemma format_cognitive_block_empty:
  "load_tensions w = Inr ts
   \<Longrightarrow> dict_get (load_patterns w) ''cognitive_patterns'' (JArr []) = Inr ps
   \<Longrightarrow> \<not> truthy ps \<Longrightarrow> format_cognitive_block py w = Inr []"
  by (cases "load_patterns w") (simp_all add: format_cognitive_block_def bind_err_def Let_def)

lemma format_belief_block_sorted:
  assumes inp: "(if b0 = JNull then load_beliefs w else Inr b0) = Inr bs" and tr: "truthy bs"
    and out: "format_belief_block py b0 w = Inr out"
  shows "\<exists>items ordered lines.
           py_iter bs = Inr items \<and> mset ordered = mset items
         \<and> sorted_wrt (\<lambda>x y. confidence_of y \<le> confidence_of x) ordered
         \<and> list_all2 (\<lambda>b l. \<exists>t. subscript b ''belief'' = Inr t
               \<and> l = ''- '' @ str_of py t @ '' ('' @ percent py (confidence_of b) @ '')'')
             ordered lines
         \<and> out = join NL ((''## What I know about you (domain beliefs)'' @ NL) # lines)
                  @ NL @ NL"
proof -
  from out inp tr obtain ordered lines where
    so: "sorted_by_confidence bs = Inr ordered"
    and ls: "map_err (\<lambda>b.
                 bind_err (subscript b ''belief'') (\<lambda>text.
                 bind_err (dict_get b ''confidence'' (JInt 0)) (\<lambda>c.
                 bind_err (format_pct py c) (\<lambda>pct.
                 Inr (''- '' @ str_of py text @ '' ('' @ pct @ '')''))))) ordered = Inr lines"
    and o: "out = join NL ((''## What I know about you (domain beliefs)'' @ NL) # lines)
                  @ NL @ NL"
    unfolding format_belief_block_def by (auto simp: bind_err_Inr)
  from sorted_by_confidence_desc [OF so] obtain items where
    it: "py_iter bs = Inr items" "mset ordered = mset items"
        "sorted_wrt (\<lambda>x y. confidence_of y \<le> confidence_of x) ordered" by blast
  have "list_all2 (\<lambda>b l. \<exists>t. subscript b ''belief'' = Inr t
               \<and> l = ''- '' @ str_of py t @ '' ('' @ percent py (confidence_of b) @ '')'')
             ordered lines"
    using map_err_Inr [OF ls] by (rule list_all2_mono) (rule belief_line)
  with it o show ?thesis by blast
qed

lemma format_cognitive_block_sorted:
  assumes ps: "dict_get (load_patterns w) ''cognitive_patterns'' (JArr []) = Inr ps"
    and tr: "truthy ps"
    and out: "format_cognitive_block py w = Inr out"
  shows "\<exists>items ordered lines rest.
           py_iter ps = Inr items \<and> mset ordered = mset items
         \<and> sorted_wrt (\<lambda>x y. confidence_of y \<le> confidence_of x) ordered
         \<and> list_all2 (\<lambda>p l. \<exists>t. subscript p ''pattern'' = Inr t
               \<and> l = ''- '' @ str_of py t @ '' ('' @ percent py (confidence_of p) @ '')'')
             ordered lines
         \<and> out = join NL (((''## Cognitive Signature (how this user thinks)'' @ NL) # lines)
                    @ rest)"
proof -
  from out ps tr obtain ordered lines rest where
    so: "sorted_by_confidence ps = Inr ordered"
    and ls: "map_err (\<lambda>p.
                 bind_err (subscript p ''pattern'') (\<lambda>text.
                 bind_err (subscript p ''confidence'') (\<lambda>c.
                 bind_err (format_pct py c) (\<lambda>pct.
                 Inr (''- '' @ str_of py text @ '' ('' @ pct @ '')''))))) ordered = Inr lines"
    and o: "out = join NL (((''## Cognitive Signature (how this user thinks)'' @ NL) # lines)
                    @ rest)"
    unfolding format_cognitive_block_def Let_def
    by (auto simp: bind_err_Inr split: if_splits)
  from sorted_by_confidence_desc [OF so] obtain items where
    it: "py_iter ps = Inr items" "mset ordered = mset items"
        "sorted_wrt (\<lambda>x y. confidence_of y \<le> confidence_of x) ordered" by blast
  have "list_all2 (\<lambda>p l. \<exists>t. subscript p ''pattern'' = Inr t
               \<and> l = ''- '' @ str_of py t @ '' ('' @ percent py (confidence_of p) @ '')'')
             ordered lines"
    using map_err_Inr [OF ls] by (rule list_all2_mono) (rule pattern_line)
  with it o show ?thesis by blast
qed

text \<open>
  C8.  Both blocks are functions of the stored documents and change nothing: the belief
  block depends on the belief document alone (or on the list it is given), the cognitive
  block on the pattern and tension documents alone, so the same stored state gives the
  same text.  Without beliefs (no document, no key "beliefs", or an empty list, stored or
  given) the belief block is the empty text; without cognitive patterns, the tension
  document being absent or an object, so is the cognitive block.  Otherwise the text is
  the heading followed by one line for each item, the items in an order of descending
  confidence; the cognitive block continues with its other lines.
\<close>

theorem context_blocks:
  "(belief_file w1 = belief_file w2
      \<longrightarrow> format_belief_block py b0 w1 = format_belief_block py b0 w2)
   \<and> (pattern_file w1 = pattern_file w2 \<and> tension_file w1 = tension_file w2
      \<longrightarrow> format_cognitive_block py w1 = format_cognitive_block py w2)
   \<and> ((if b0 = JNull then load_beliefs w else Inr b0) = Inr (JArr [])
      \<longrightarrow> format_belief_block py b0 w = Inr [])
   \<and> ((tension_file w = None \<or> (\<exists>kvs. tension_file w = Some (JObj kvs)))
       \<and> dict_get (load_patterns w) ''cognitive_patterns'' (JArr []) = Inr (JArr [])
      \<longrightarrow> format_cognitive_block py w = Inr [])
   \<and> ((if b0 = JNull then load_beliefs w else Inr b0) = Inr bs \<and> truthy bs
       \<and> format_belief_block py b0 w = Inr out
      \<longrightarrow> (\<exists>items ordered lines.
             py_iter bs = Inr items \<and> mset ordered = mset items
           \<and> sorted_wrt (\<lambda>x y. confidence_of y \<le> confidence_of x) ordered
           \<and> list_all2 (\<lambda>b l. \<exists>t. subscript b ''belief'' = Inr t
                 \<and> l = ''- '' @ str_of py t @ '' ('' @ percent py (confidence_of b) @ '')'')
               ordered lines
           \<and> out = join NL ((''## What I know about you (domain beliefs)'' @ NL) # lines)
                    @ NL @ NL))
   \<and> (dict_get (load_patterns w) ''cognitive_patterns'' (JArr []) = Inr ps \<and> truthy ps
       \<and> format_cognitive_block py w = Inr out'
      \<longrightarrow> (\<exists>items ordered lines rest.
             py_iter ps = Inr items \<and> mset ordered = mset items
           \<and> sorted_wrt (\<lambda>x y. confidence_of y \<le> confidence_of x) ordered
           \<and> list_all2 (\<lambda>p l. \<exists>t. subscript p ''pattern'' = Inr t
                 \<and> l = ''- '' @ str_of py t @ '' ('' @ percent py (confidence_of p) @ '')'')
               ordered lines
           \<and> out' = join NL (((''## Cognitive Signature (how this user thinks)'' @ NL) # lines)
                      @ rest)))"
proof (intro conjI impI)
  assume "belief_file w1 = belief_file w2"
  then show "format_belief_block py b0 w1 = format_belief_block py b0 w2"
    by (rule format_belief_block_cong)
next
  assume h: "pattern_file w1 = pattern_file w2 \<and> tension_file w1 = tension_file w2"
  show "format_cognitive_block py w1 = format_cognitive_block py w2"
    by (rule format_cognitive_block_cong [OF h [THEN conjunct1] h [THEN conjunct2]])
next
  assume "(if b0 = JNull then load_beliefs w else Inr b0) = Inr (JArr [])"
  then show "format_belief_block py b0 w = Inr []"
    by (rule format_belief_block_empty) simp
next
  assume h: "(tension_file w = None \<or> (\<exists>kvs. tension_file w = Some (JObj kvs)))
       \<and> dict_get (load_patterns w) ''cognitive_patterns'' (JArr []) = Inr (JArr [])"
  from h [THEN conjunct1] obtain ts where ts: "load_tensions w = Inr ts"
    by (auto simp: load_tensions_def)
  show "format_cognitive_block py w = Inr []"
    by (rule format_cognitive_block_empty [OF ts h [THEN conjunct2]]) simp
next
  assume h: "(if b0 = JNull then load_beliefs w else Inr b0) = Inr bs \<and> truthy bs
       \<and> format_belief_block py b0 w = Inr out"
  show "\<exists>items ordered lines.
             py_iter bs = Inr items \<and> mset ordered = mset items
           \<and> sorted_wrt (\<lambda>x y. confidence_of y \<le> confidence_of x) ordered
           \<and> list_all2 (\<lambda>b l. \<exists>t. subscript b ''belief'' = Inr t
                 \<and> l = ''- '' @ str_of py t @ '' ('' @ percent py (confidence_of b) @ '')'')
               ordered lines
           \<and> out = join NL ((''## What I know about you (domain beliefs)'' @ NL) # lines)
                    @ NL @ NL"
    by (rule format_belief_block_sorted [OF h [THEN conjunct1]
          h [THEN conjunct2, THEN conjunct1] h [THEN conjunct2, THEN conjunct2]])
next
  assume h: "dict_get (load_patterns w) ''cognitive_patterns'' (JArr []) = Inr ps \<and> truthy ps
       \<and> format_cognitive_block py w = Inr out'"
  show "\<exists>items ordered lines rest.
             py_iter ps = Inr items \<and> mset ordered = mset items
           \<and> sorted_wrt (\<lambda>x y. confidence_of y \<le> confidence_of x) ordered
           \<and> list_all2 (\<lambda>p l. \<exists>t. subscript p ''pattern'' = Inr t
                 \<and> l = ''- '' @ str_of py t @ '' ('' @ percent py (confidence_of p) @ '')'')
               ordered lines
           \<and> out' = join NL (((''## Cognitive Signature (how this user thinks)'' @ NL) # lines)
                      @ rest)"
    by (rule format_cognitive_block_sorted [OF h [THEN conjunct1]
          h [THEN conjunct2, THEN conjunct1] h [THEN conjunct2, THEN conjunct2]])
qed

theorem context_blocks_witness:
  "format_belief_block example_py JNull example_world
     = Inr (''## What I know about you (domain beliefs)'' @ NL @ NL
            @ ''- uses python (90%)'' @ NL @ ''- likes tea (70%)'' @ NL @ NL)
   \<and> format_belief_block example_py JNull (example_world\<lparr>log_file := None\<rparr>)
     = format_belief_block example_py JNull example_world
   \<and> format_belief_block example_py (JArr []) example_world = Inr []
   \<and> format_cognitive_block example_py example_world = Inr []
   \<and> (\<exists>ordered. mset ordered = mset [JObj [(''belief'', JStr ''likes tea''),
                                               (''confidence'', JFloat (7 / 10))],
                                         JObj [(''belief'', JStr ''uses python''),
                                               (''confidence'', JFloat (9 / 10))]]
         \<and> sorted_wrt (\<lambda>x y. confidence_of y \<le> confidence_of x) ordered)"
proof -
  have v: "format_belief_block example_py JNull example_world
     = Inr (''## What I know about you (domain beliefs)'' @ NL @ NL
            @ ''- uses python (90%)'' @ NL @ ''- likes tea (70%)'' @ NL @ NL)"
    by code_simp
  have l: "(if JNull = JNull then load_beliefs example_world else Inr JNull)
     = Inr (JArr [JObj [(''belief'', JStr ''likes tea''), (''confidence'', JFloat (7 / 10))],
                  JObj [(''belief'', JStr ''uses python''), (''confidence'', JFloat (9 / 10))]])"
    by code_simp
  have p: "dict_get (load_patterns example_world) ''cognitive_patterns'' (JArr []) = Inr (JArr [])"
    by code_simp
  have t: "tension_file example_world = None"
    by (simp add: example_world_def empty_world_def)
  have a: "format_belief_block example_py JNull (example_world\<lparr>log_file := None\<rparr>)
     = format_belief_block example_py JNull example_world"
    by (rule context_blocks [THEN conjunct1, THEN mp]) simp
  have e: "format_belief_block example_py (JArr []) example_world = Inr []"
    by (rule context_blocks [THEN conjunct2, THEN conjunct2, THEN conjunct1, THEN mp]) simp
  have g: "format_cognitive_block example_py example_world = Inr []"
    by (rule context_blocks [THEN conjunct2, THEN conjunct2, THEN conjunct2, THEN conjunct1,
          THEN mp]) (simp add: p t)
  have "\<exists>items ordered lines.
         py_iter (JArr [JObj [(''belief'', JStr ''likes tea''), (''confidence'', JFloat (7 / 10))],
                  JObj [(''belief'', JStr ''uses python''), (''confidence'', JFloat (9 / 10))]])
           = Inr items \<and> mset ordered = mset items
         \<and> sorted_wrt (\<lambda>x y. confidence_of y \<le> confidence_of x) ordered
         \<and> list_all2 (\<lambda>b l. \<exists>t. subscript b ''belief'' = Inr t
               \<and> l = ''- '' @ str_of example_py t @ '' (''
                     @ percent example_py (confidence_of b) @ '')'')
             ordered lines
         \<and> ''## What I know about you (domain beliefs)'' @ NL @ NL
            @ ''- uses python (90%)'' @ NL @ ''- likes tea (70%)'' @ NL @ NL
           = join NL ((''## What I know about you (domain beliefs)'' @ NL) # lines) @ NL @ NL"
    by (rule context_blocks [THEN conjunct2, THEN conjunct2, THEN conjunct2, THEN conjunct2,
          THEN conjunct1, THEN mp])
       (intro conjI, rule l, simp, rule v)
  then obtain items ordered where
    i: "py_iter (JArr [JObj [(''belief'', JStr ''likes tea''), (''confidence'', JFloat (7 / 10))],
                  JObj [(''belief'', JStr ''uses python''), (''confidence'', JFloat (9 / 10))]])
           = Inr items"
    and m: "mset ordered = mset items"
    and o: "sorted_wrt (\<lambda>x y. confidence_of y \<le> confidence_of x) ordered"
    by blast
  from i have "items = [JObj [(''belief'', JStr ''likes tea''), (''confidence'', JFloat (7 / 10))],
                  JObj [(''belief'', JStr ''uses python''), (''confidence'', JFloat (9 / 10))]]"
    by simp
  with m o have s: "\<exists>ordered. mset ordered = mset [JObj [(''belief'', JStr ''likes tea''),
                                               (''confidence'', JFloat (7 / 10))],
                                         JObj [(''belief'', JStr ''uses python''),
                                               (''confidence'', JFloat (9 / 10))]]
         \<and> sorted_wrt (\<lambda>x y. confidence_of y \<le> confidence_of x) ordered"
    by blast
  from v a e g s show ?thesis
    by (intro conjI)
qed

section \<open>Properties of the log\<close>

lemma load_log_zero: "load_log (Some 0) w = load_log None w"
  by (simp add: load_log_def split: option.split)

lemma example_log_all: "load_log None example_world = Inr [example_entry]"
  by code_simp

text \<open>
  C10.  A limit of 0 is no limit: \<open>load_log(0)\<close> returns what \<open>load_log()\<close> returns, so
  on a log with at least one record it returns all the records and not the empty list.
\<close>

theorem load_log_zero_limit:
  assumes "load_log None w = Inr entries" and "entries \<noteq> []"
  shows "load_log (Some 0) w = Inr entries \<and> load_log (Some 0) w \<noteq> Inr []"
  using assms by (simp add: load_log_zero)

theorem load_log_zero_limit_witness:
  "load_log None example_world = Inr [example_entry]
   \<and> load_log (Some 0) example_world = Inr [example_entry]
   \<and> load_log (Some 0) example_world \<noteq> Inr []"
  using load_log_zero_limit [OF example_log_all] example_log_all by simp

section \<open>Reading back what \<open>json.dumps\<close> wrote\<close>

lemma hex_roundtrip: "k < 16 \<Longrightarrow> hex_val (hex_char k) = Some k"
proof -
  assume "k < 16"
  then have "k \<in> {0, 1, 2, 3, 4, 5, 6, 7, 8, 9, 10, 11, 12, 13, 14, 15}" by auto arith
  then show ?thesis
    by (auto simp: hex_val_def hex_char_def)
qed

lemma hex_char_printable: "k < 16 \<Longrightarrow> hex_char k \<in> set PRINTABLE"
proof -
  assume "k < 16"
  then have "k \<in> {0, 1, 2, 3, 4, 5, 6, 7, 8, 9, 10, 11, 12, 13, 14, 15}" by auto arith
  then show ?thesis
    by (auto simp: hex_char_def PRINTABLE_def)
qed

lemma printable_not_control: "c \<in> set PRINTABLE \<Longrightarrow> c \<notin> set CONTROLS"
  by (auto simp: PRINTABLE_def CONTROLS_def)

lemma printable_not_break: "c \<in> set PRINTABLE \<Longrightarrow> c \<notin> set LINE_BREAKS"
  by (auto simp: PRINTABLE_def LINE_BREAKS_def)

lemma printable_space: "c \<in> set PRINTABLE \<Longrightarrow> isspace c \<longleftrightarrow> c = CHR '' ''"
  by (auto simp: PRINTABLE_def isspace_def SPACES_def)

lemma escape_char_printable: "set (escape_char c) \<subseteq> set PRINTABLE"
proof -
  have q: "QUOTE \<in> set PRINTABLE" "BACKSLASH \<in> set PRINTABLE" "CHR ''n'' \<in> set PRINTABLE"
    "CHR ''r'' \<in> set PRINTABLE" "CHR ''t'' \<in> set PRINTABLE" "CHR ''b'' \<in> set PRINTABLE"
    "CHR ''f'' \<in> set PRINTABLE" "CHR ''u'' \<in> set PRINTABLE" "CHR ''0'' \<in> set PRINTABLE"
    by (simp_all add: PRINTABLE_def QUOTE_def BACKSLASH_def)
  have "(of_char c :: nat) div 16 < 16" "(of_char c :: nat) mod 16 < 16"
    using nat_of_char_less_256 [of c] by (simp_all add: less_mult_imp_div_less)
  then show ?thesis
    using q by (auto simp: escape_char_def hex_char_printable)
qed

lemma lex_str_escape: "lex_str (escape_char c @ rest) = push c (lex_str rest)"
proof -
  consider (special) "c \<in> {QUOTE, BACKSLASH, CHR 0x0A, CHR 0x0D, CHR 0x09, CHR 0x08, CHR 0x0C}"
    | (plain) "c \<notin> {QUOTE, BACKSLASH, CHR 0x0A, CHR 0x0D, CHR 0x09, CHR 0x08, CHR 0x0C}" "c \<in> set PRINTABLE"
    | (other) "c \<notin> {QUOTE, BACKSLASH, CHR 0x0A, CHR 0x0D, CHR 0x09, CHR 0x08, CHR 0x0C}" "c \<notin> set PRINTABLE"
    by blast
  then show ?thesis
  proof cases
    case special
    then show ?thesis
      by (auto simp: escape_char_def unescape_def QUOTE_def BACKSLASH_def)
  next
    case plain
    then show ?thesis
      using printable_not_control [of c] by (simp add: escape_char_def)
  next
    case other
    let ?n = "of_char c :: nat"
    have d: "?n div 16 < 16" "?n mod 16 < 16"
      using nat_of_char_less_256 [of c] by (simp_all add: less_mult_imp_div_less)
    have z: "hex_val (CHR ''0'') = Some 0"
      by (simp add: hex_val_def)
    have h: "hex4 (CHR ''0'') (CHR ''0'') (hex_char (?n div 16)) (hex_char (?n mod 16)) = Some ?n"
      by (simp add: hex4_def z hex_roundtrip d)
    have u: "BACKSLASH \<noteq> QUOTE" "CHR ''u'' \<noteq> QUOTE"
      by (simp_all add: QUOTE_def BACKSLASH_def)
    from other show ?thesis
      by (simp add: escape_char_def h u)
  qed
qed

lemma lex_str_quote: "lex_str (concat (map escape_char s) @ QUOTE # rest) = Some (s, rest)"
  by (induction s) (simp_all add: lex_str_escape push_def)

lemma lex_skip: "lex_from (length xs) (xs @ ys) = lex_from 0 ys"
  by (induction xs) simp_all

lemma lex_quote: "lex_from 0 (quote s @ rest) = tcons (TVal (JStr s)) (lex_from 0 rest)"
proof -
  let ?body = "concat (map escape_char s)"
  have q: "QUOTE \<notin> set JSON_WS" "QUOTE \<noteq> CHR ''{''" "QUOTE \<noteq> CHR ''}''" "QUOTE \<noteq> CHR ''[''"
    "QUOTE \<noteq> CHR '']''" "QUOTE \<noteq> CHR '',''" "QUOTE \<noteq> CHR '':''"
    by (simp_all add: QUOTE_def JSON_WS_def)
  have "lex_from 0 (QUOTE # ?body @ QUOTE # rest)
          = tcons (TVal (JStr s)) (lex_from (length (?body @ [QUOTE])) ((?body @ [QUOTE]) @ rest))"
    by (simp add: q lex_str_quote)
  then show ?thesis
    by (simp only: lex_skip) (simp add: quote_def)
qed

lemma lex_punct:
  "lex_from 0 (CHR ''{'' # rest) = tcons TLBrace (lex_from 0 rest)"
  "lex_from 0 (CHR ''}'' # rest) = tcons TRBrace (lex_from 0 rest)"
  "lex_from 0 (CHR ''['' # rest) = tcons TLBrack (lex_from 0 rest)"
  "lex_from 0 (CHR '']'' # rest) = tcons TRBrack (lex_from 0 rest)"
  "lex_from 0 (CHR '','' # CHR '' '' # rest) = tcons TComma (lex_from 0 rest)"
  "lex_from 0 (CHR '':'' # CHR '' '' # rest) = tcons TColon (lex_from 0 rest)"
  by (simp_all add: JSON_WS_def)

lemma tapp_simps: "tapp [] r = r" "tapp (t # ts) r = tcons t (tapp ts r)"
  by (cases r; simp add: tapp_def tcons_def)+

lemma lex_tags:
  "lex_from 0 (join '', '' (map quote ts) @ CHR '']'' # rest)
     = tapp (tag_toks ts) (tcons TRBrack (lex_from 0 rest))"
proof (induction ts rule: tag_toks.induct)
  case 1
  show ?case by (simp add: lex_punct tapp_simps del: lex_from.simps)
next
  case (2 t)
  show ?case
    by (simp add: lex_quote lex_punct tapp_simps del: lex_from.simps)
next
  case (3 t u us)
  then show ?case
    by (simp add: lex_quote lex_punct tapp_simps del: lex_from.simps)
qed


lemma digit_char_facts:
  assumes "d < 10"
  shows "isdigit (digit_char d)" "digit_val (digit_char d) = d" "digit_char d \<in> set PRINTABLE"
proof -
  from assms have "d \<in> {0, 1, 2, 3, 4, 5, 6, 7, 8, 9}" by auto
  then show "isdigit (digit_char d)" "digit_val (digit_char d) = d"
    "digit_char d \<in> set PRINTABLE"
    by (auto simp: isdigit_def digit_val_def digit_char_def DIGITS_def PRINTABLE_def)
qed

lemma frac_digits_zero: "frac_digits m 0 = []"
  by (cases m) simp_all

lemma frac_step:
  assumes "f \<noteq> 0" and "\<lfloor>f * 10\<rfloor> = d" and "0 \<le> d"
  shows "frac_digits (Suc m) f = digit_char (nat d) # frac_digits m (f * 10 - of_int d)"
proof -
  from assms(3) have "(of_nat (nat d) :: rat) = of_int d" by simp
  with assms(1,2) show ?thesis by (simp add: Let_def)
qed

lemma score_fraction:
  fixes k :: int
  assumes "30 \<le> k" and "k \<le> 95"
  shows "frac_digits (Suc (Suc m)) (of_int k / 100)
           = digit_char (nat (k div 10))
             # (if k mod 10 = 0 then [] else [digit_char (nat (k mod 10))])"
proof -
  let ?r = "of_int k / 100 :: rat"
  let ?g = "of_int (k mod 10) / 10 :: rat"
  have nz: "?r \<noteq> 0" using assms by simp
  have f1: "\<lfloor>?r * 10\<rfloor> = k div 10"
  proof -
    have "?r * 10 = of_int k / of_int 10" by simp
    then show ?thesis by (simp only: floor_divide_of_int_eq)
  qed
  have d1: "0 \<le> k div 10" using assms by simp
  have k: "k = 10 * (k div 10) + k mod 10" by simp
  have "(of_int k :: rat) = 10 * of_int (k div 10) + of_int (k mod 10)"
    by (subst k) (simp only: of_int_add of_int_mult of_int_numeral)
  then have g: "?r * 10 - of_int (k div 10) = ?g"
    by (simp add: field_simps)
  have s1: "frac_digits (Suc (Suc m)) ?r = digit_char (nat (k div 10)) # frac_digits (Suc m) ?g"
    using frac_step [OF nz f1 d1, of "Suc m"] by (simp only: g)
  show ?thesis
  proof (cases "k mod 10 = 0")
    case True
    then have gz: "?g = 0" by simp
    from s1 have "frac_digits (Suc (Suc m)) ?r = [digit_char (nat (k div 10))]"
      by (simp only: gz frac_digits_zero)
    with True show ?thesis by simp
  next
    case False
    then have gz: "?g \<noteq> 0" by simp
    have f2: "\<lfloor>?g * 10\<rfloor> = k mod 10" by simp
    have d2: "0 \<le> k mod 10" by simp
    have e: "?g * 10 - of_int (k mod 10) = 0" by simp
    have "frac_digits (Suc m) ?g = [digit_char (nat (k mod 10))]"
      using frac_step [OF gz f2 d2, of m] by (simp only: e frac_digits_zero)
    with s1 False show ?thesis by (simp only: if_False)
  qed
qed

lemma score_denominator:
  fixes k :: int
  assumes "30 \<le> k" and "k \<le> 95"
  shows "\<exists>m. nat (snd (quotient_of (of_int k / 100 :: rat))) = Suc (Suc m)"
proof -
  let ?r = "of_int k / 100 :: rat"
  obtain a b where q: "quotient_of ?r = (a, b)" by (cases "quotient_of ?r")
  from quotient_of_denom_pos [OF q] have b: "0 < b" .
  from quotient_of_div [OF q] have r: "?r = of_int a / of_int b" .
  have "b \<noteq> 1"
  proof
    assume "b = 1"
    with r have "(of_int k :: rat) = of_int (100 * a)" by simp
    then have "k = 100 * a" by (simp only: of_int_eq_iff)
    with assms show False by arith
  qed
  with b have "2 \<le> b" by simp
  then obtain m where "nat b = Suc (Suc m)"
    by (metis Suc_nat_number_of_add numeral_2_eq_2 nat_le_iff_add le_nat_iff add_2_eq_Suc nat_2 nat_mono zero_le_numeral)
  with q show ?thesis by auto
qed

lemma score_repr:
  fixes k :: int
  assumes "30 \<le> k" and "k \<le> 95"
  shows "float_repr (of_int k / 100)
           = ''0.'' @ digit_char (nat (k div 10))
             # (if k mod 10 = 0 then [] else [digit_char (nat (k mod 10))])"
proof -
  let ?r = "of_int k / 100 :: rat"
  have pos: "(?r < 0) = False" "\<bar>?r\<bar> = ?r" using assms by simp_all
  have fl: "\<lfloor>?r\<rfloor> = 0" using assms by (simp add: floor_eq_iff)
  have nz: "?r \<noteq> 0" using assms by simp
  from score_denominator [OF assms] obtain m where
    m: "nat (snd (quotient_of ?r)) = Suc (Suc m)" by blast
  have d0: "digits_of 0 = ''0''"
    by (simp add: digit_char_def DIGITS_def)
  show ?thesis
    unfolding float_repr_def Let_def pos fl
    by (simp only: nat_0 of_nat_0 diff_zero nz if_False m score_fraction [OF assms] d0
          append_Nil append_Cons)
qed


lemma lex_num_fraction:
  assumes "ds \<noteq> []" and "\<And>c. c \<in> set ds \<Longrightarrow> isdigit c"
  shows "lex_num (''0.'' @ ds @ CHR ''}'' # rest)
           = Some (JFloat (of_nat (nat_of_digits ds) / 10 ^ length ds), CHR ''}'' # rest)"
proof -
  have nd: "\<not> isdigit (CHR ''}'')"
    by (simp add: isdigit_def DIGITS_def)
  have tw: "takeWhile isdigit (ds @ CHR ''}'' # rest) = ds"
    using assms(2) nd by (simp add: takeWhile_append2)
  have dw: "dropWhile isdigit (ds @ CHR ''}'' # rest) = CHR ''}'' # rest"
    using assms(2) nd by (simp add: dropWhile_append2)
  have z: "nat_of_digits ''0'' = 0"
    by (simp add: nat_of_digits_def digit_val_def DIGITS_def)
  have ex: "lex_exp (CHR ''}'' # rest) = (None, CHR ''}'' # rest)"
    by (simp add: lex_exp_def)
  show ?thesis
    using assms(1) by (simp add: lex_num_def tw dw z ex scale10_def)
qed

lemma score_digits_value:
  fixes k :: int
  assumes "30 \<le> k" and "k \<le> 95"
  defines "ds \<equiv> digit_char (nat (k div 10))
                 # (if k mod 10 = 0 then [] else [digit_char (nat (k mod 10))])"
  shows "ds \<noteq> []" and "\<And>c. c \<in> set ds \<Longrightarrow> isdigit c"
    and "\<And>c. c \<in> set ds \<Longrightarrow> c \<in> set PRINTABLE"
    and "(of_nat (nat_of_digits ds) / 10 ^ length ds :: rat) = of_int k / 100"
proof -
  have a: "nat (k div 10) < 10" using assms(1,2) by simp
  have b: "nat (k mod 10) < 10" by simp
  show "ds \<noteq> []" by (simp add: ds_def)
  show "\<And>c. c \<in> set ds \<Longrightarrow> isdigit c"
    using digit_char_facts(1) [OF a] digit_char_facts(1) [OF b]
    by (auto simp: ds_def split: if_splits)
  show "\<And>c. c \<in> set ds \<Longrightarrow> c \<in> set PRINTABLE"
    using digit_char_facts(3) [OF a] digit_char_facts(3) [OF b]
    by (auto simp: ds_def split: if_splits)
  have k: "k = 10 * (k div 10) + k mod 10" by simp
  have kr: "(of_int k :: rat) = 10 * of_int (k div 10) + of_int (k mod 10)"
    by (subst k) (simp only: of_int_add of_int_mult of_int_numeral)
  have d1: "0 \<le> k div 10" using assms by simp
  have n1: "(of_nat (nat (k div 10)) :: rat) = of_int (k div 10)"
    using d1 by simp
  have n2: "(of_nat (nat (k mod 10)) :: rat) = of_int (k mod 10)"
    by simp
  show "(of_nat (nat_of_digits ds) / 10 ^ length ds :: rat) = of_int k / 100"
  proof (cases "k mod 10 = 0")
    case True
    then have "ds = [digit_char (nat (k div 10))]" by (simp add: ds_def)
    then have "nat_of_digits ds = nat (k div 10)" "length ds = 1"
      by (simp_all add: nat_of_digits_def digit_char_facts(2) [OF a])
    with True kr n1 show ?thesis by simp
  next
    case False
    then have "ds = [digit_char (nat (k div 10)), digit_char (nat (k mod 10))]"
      by (simp add: ds_def)
    then have "nat_of_digits ds = 10 * nat (k div 10) + nat (k mod 10)" "length ds = 2"
      by (simp_all add: nat_of_digits_def digit_char_facts(2) [OF a] digit_char_facts(2) [OF b])
    then have "(of_nat (nat_of_digits ds) / 10 ^ length ds :: rat)
                 = (10 * of_int (k div 10) + of_int (k mod 10)) / 100"
      by (simp only: of_nat_add of_nat_mult n1 n2 of_nat_numeral) simp
    with kr show ?thesis by simp
  qed
qed

lemma lex_score:
  fixes k :: int
  assumes "30 \<le> k" and "k \<le> 95"
  shows "lex_from 0 (float_repr (of_int k / 100) @ CHR ''}'' # rest)
           = tcons (TVal (JFloat (of_int k / 100))) (tcons TRBrace (lex_from 0 rest))"
proof -
  define ds where "ds = digit_char (nat (k div 10))
                 # (if k mod 10 = 0 then [] else [digit_char (nat (k mod 10))])"
  note v = score_digits_value [OF assms, folded ds_def]
  have r: "float_repr (of_int k / 100) = ''0.'' @ ds"
    by (simp only: score_repr [OF assms] ds_def)
  have n: "lex_num (CHR ''0'' # CHR ''.'' # ds @ CHR ''}'' # rest)
             = Some (JFloat (of_int k / 100), CHR ''}'' # rest)"
    using lex_num_fraction [OF v(1) v(2), of rest] by (simp add: v(4))
  have z: "isdigit (CHR ''0'')" "CHR ''0'' \<notin> set JSON_WS" "CHR ''0'' \<noteq> QUOTE"
    by (simp_all add: isdigit_def DIGITS_def JSON_WS_def QUOTE_def)
  have "lex_from 0 (CHR ''0'' # CHR ''.'' # ds @ CHR ''}'' # rest)
          = tcons (TVal (JFloat (of_int k / 100)))
              (lex_from (length (CHR ''.'' # ds)) ((CHR ''.'' # ds) @ CHR ''}'' # rest))"
    by (simp add: z n)
  then show ?thesis
    by (simp only: lex_skip lex_punct r) simp
qed

lemma dumps_entry:
  "json_dumps (entry_of ident now question answer tags k)
     = CHR ''{'' # quote ''id'' @ CHR '':'' # CHR '' '' # quote ident
       @ CHR '','' # CHR '' '' # quote ''timestamp'' @ CHR '':'' # CHR '' '' # quote now
       @ CHR '','' # CHR '' '' # quote ''question'' @ CHR '':'' # CHR '' '' # quote question
       @ CHR '','' # CHR '' '' # quote ''answer'' @ CHR '':'' # CHR '' '' # quote answer
       @ CHR '','' # CHR '' '' # quote ''tags'' @ CHR '':'' # CHR '' ''
         # CHR ''['' # join '', '' (map quote tags)
       @ CHR '']'' # CHR '','' # CHR '' '' # quote ''confidence'' @ CHR '':'' # CHR '' ''
         # float_repr (of_int k / 100) @ ''}''"
  by (simp add: entry_of_def comp_def)

lemma tapp_tcons: "tapp ts (tcons t r) = tapp (ts @ [t]) r"
  by (cases r) (simp_all add: tapp_def tcons_def)

lemma tcons_tapp: "tcons t (tapp ts r) = tapp (t # ts) r"
  by (simp add: tapp_simps)

lemma tapp_tapp: "tapp ts (tapp us r) = tapp (ts @ us) r"
  by (cases r) (simp_all add: tapp_def)

lemma lex_entry:
  fixes k :: int
  assumes "30 \<le> k" and "k \<le> 95"
  shows "lex_from 0 (json_dumps (entry_of ident now question answer tags k))
           = Some (entry_toks ident now question answer tags k)"
proof -
  have e: "lex_from 0 [] = Some []" by simp
  have "lex_from 0 (json_dumps (entry_of ident now question answer tags k))
          = tapp (entry_toks ident now question answer tags k) (lex_from 0 [])"
    unfolding dumps_entry entry_toks_def
    by (simp only: lex_punct lex_quote lex_tags lex_score [OF assms] append_Cons append_Nil
          tcons_tapp tapp_tcons tapp_tapp append_assoc)
  then show ?thesis by (simp add: e tapp_def)
qed


lemma run_tags_rest:
  "run (SValue (FArr acc # fs)) (tag_toks (t # ts) @ TRBrack # rest)
     = (case reduce (JArr (acc @ map JStr (t # ts))) fs of
          None \<Rightarrow> None | Some s \<Rightarrow> run s rest)"
proof (induction ts arbitrary: acc t)
  case Nil
  show ?case by simp
next
  case (Cons u us)
  show ?case using Cons [of "acc @ [JStr t]" u] by simp
qed

lemma run_tags:
  "run (SFirst (FArr [] # fs)) (tag_toks ts @ TRBrack # rest)
     = (case reduce (JArr (map JStr ts)) fs of None \<Rightarrow> None | Some s \<Rightarrow> run s rest)"
proof (cases ts)
  case Nil
  then show ?thesis by simp
next
  case (Cons t us)
  have "run (SFirst (FArr [] # fs)) (tag_toks (t # us) @ TRBrack # rest)
          = run (SValue (FArr [] # fs)) (tag_toks (t # us) @ TRBrack # rest)"
    by (cases us) simp_all
  with Cons show ?thesis by (simp only: run_tags_rest append_Nil)
qed

lemma parse_entry:
  "parse_tokens (entry_toks ident now question answer tags k)
     = Some (entry_of ident now question answer tags k)"
proof -
  have "run (SValue [])
          ([TLBrace, TVal (JStr ''id''), TColon, TVal (JStr ident), TComma,
            TVal (JStr ''timestamp''), TColon, TVal (JStr now), TComma,
            TVal (JStr ''question''), TColon, TVal (JStr question), TComma,
            TVal (JStr ''answer''), TColon, TVal (JStr answer), TComma,
            TVal (JStr ''tags''), TColon]
           @ TLBrack # tag_toks tags
           @ TRBrack # [TComma, TVal (JStr ''confidence''), TColon,
                        TVal (JFloat (of_int k / 100)), TRBrace])
        = Some (SDone (entry_of ident now question answer tags k))"
    by (simp add: run_tags entry_of_def)
  then show ?thesis
    by (simp add: parse_tokens_def entry_toks_def)
qed

lemma loads_dumps_entry:
  fixes k :: int
  assumes "30 \<le> k" and "k \<le> 95"
  shows "json_loads (json_dumps (entry_of ident now question answer tags k))
           = Inr (entry_of ident now question answer tags k)"
  by (simp add: json_loads_def lex_entry [OF assms] parse_entry)

section \<open>The log read back\<close>

lemma split_lines_line:
  assumes "set d \<inter> set brk = {}" and "CHR 0x0A \<in> set brk"
  shows "split_lines brk (d @ CHR 0x0A # rest) = d # split_lines brk rest"
  using assms(1)
proof (induction d)
  case Nil
  show ?case using assms(2) by (cases rest) simp_all
next
  case (Cons c d)
  then show ?case by simp
qed

lemma split_lines_last:
  assumes "d \<noteq> []" and "set d \<inter> set brk = {}"
  shows "split_lines brk d = [d]"
  using assms
proof (induction d)
  case Nil
  then show ?case by simp
next
  case (Cons c d)
  then show ?case by (cases "d = []") auto
qed

lemma solid_no_break:
  assumes "solid d"
  shows "set d \<inter> set LINE_BREAKS = {}" and "set d \<inter> set [CHR 0x0A, CHR 0x0D] = {}"
proof -
  from assms have p: "set d \<subseteq> set PRINTABLE" by (simp add: solid_def)
  show "set d \<inter> set LINE_BREAKS = {}"
    using p printable_not_break by blast
  have "CHR 0x0A \<notin> set PRINTABLE" "CHR 0x0D \<notin> set PRINTABLE"
    by (simp_all add: PRINTABLE_def)
  with p show "set d \<inter> set [CHR 0x0A, CHR 0x0D] = {}" by auto
qed

lemma solid_ends:
  assumes "solid d"
  shows "\<not> isspace (hd d)" and "\<not> isspace (last d)"
proof -
  from assms have "hd d \<in> set PRINTABLE" "last d \<in> set PRINTABLE"
    "hd d \<noteq> CHR '' ''" "last d \<noteq> CHR '' ''"
    by (auto simp: solid_def)
  then show "\<not> isspace (hd d)" "\<not> isspace (last d)"
    by (simp_all add: printable_space)
qed

lemma dropWhile_rev_last:
  "xs \<noteq> [] \<Longrightarrow> \<not> P (last xs) \<Longrightarrow> dropWhile P (rev xs) = rev xs"
  by (induction xs rule: rev_induct) simp_all

lemma strip_solid: "solid d \<Longrightarrow> strip d = d"
proof -
  assume s: "solid d"
  then have ne: "d \<noteq> []" by (simp add: solid_def)
  from ne solid_ends(1) [OF s] have a: "dropWhile isspace d = d"
    by (cases d) simp_all
  from ne solid_ends(2) [OF s] have "dropWhile isspace (rev d) = rev d"
    by (rule dropWhile_rev_last)
  with a show ?thesis by (simp add: strip_def)
qed

lemma strip_lines_text:
  assumes "list_all solid (ds @ [d])"
  shows "strip (lines_text (ds @ [d])) = lines_text ds @ d"
proof -
  from assms have sd: "solid d" and sds: "list_all solid ds" by simp_all
  from sd have ne: "d \<noteq> []" by (simp add: solid_def)
  let ?t = "lines_text ds @ d"
  have t: "lines_text (ds @ [d]) = ?t @ NL"
    by (simp add: lines_text_def)
  have hd_ns: "\<not> isspace (hd ?t)"
  proof (cases ds)
    case Nil
    with ne solid_ends(1) [OF sd] show ?thesis by (simp add: lines_text_def)
  next
    case (Cons x xs)
    with sds have sx: "solid x" by simp
    then have "x \<noteq> []" by (simp add: solid_def)
    with Cons solid_ends(1) [OF sx] show ?thesis by (simp add: lines_text_def)
  qed
  have tne: "?t \<noteq> []" using ne by simp
  from tne hd_ns have a: "dropWhile isspace (?t @ NL) = ?t @ NL"
    by (cases ?t) simp_all
  have l: "last ?t = last d" using ne by simp
  have sp: "isspace (CHR 0x0A)" by (simp add: isspace_def SPACES_def)
  from solid_ends(2) [OF sd] l have "\<not> isspace (last ?t)" by simp
  with tne have "dropWhile isspace (rev ?t) = rev ?t"
    by (rule dropWhile_rev_last)
  then have "dropWhile isspace (rev (?t @ NL)) = rev ?t"
    using sp by (simp add: NL_def)
  with a show ?thesis by (simp add: strip_def t)
qed

lemma splitlines_lines_text:
  assumes "list_all solid (ds @ [d])"
  shows "splitlines (lines_text ds @ d) = ds @ [d]"
  using assms
proof (induction ds)
  case Nil
  then have "solid d" by simp
  then show ?case
    using split_lines_last [of d LINE_BREAKS] solid_no_break(1) [of d]
    by (simp add: lines_text_def splitlines_def solid_def)
next
  case (Cons x xs)
  then have sx: "solid x" and rest: "list_all solid (xs @ [d])" by simp_all
  have lf: "CHR 0x0A \<in> set LINE_BREAKS" by (simp add: LINE_BREAKS_def)
  from split_lines_line [OF solid_no_break(1) [OF sx] lf, of "lines_text xs @ d"]
    Cons.IH [OF rest]
  show ?case by (simp add: lines_text_def splitlines_def NL_def)
qed

lemma file_lines_lines_text:
  assumes "list_all solid ds"
  shows "file_lines (lines_text ds) = ds"
  using assms
proof (induction ds)
  case Nil
  show ?case by (simp add: lines_text_def file_lines_def)
next
  case (Cons x xs)
  then have sx: "solid x" and rest: "list_all solid xs" by simp_all
  have lf: "CHR 0x0A \<in> set [CHR 0x0A, CHR 0x0D]" by simp
  from split_lines_line [OF solid_no_break(2) [OF sx] lf, of "lines_text xs"]
    Cons.IH [OF rest]
  show ?case by (simp add: lines_text_def file_lines_def NL_def)
qed

lemma filter_solid:
  "list_all solid ds \<Longrightarrow> filter (\<lambda>l. strip l \<noteq> []) ds = ds"
  by (induction ds) (auto simp: strip_solid solid_def)

lemma set_join: "set (join sep xs) \<subseteq> set sep \<union> \<Union> (set ` set xs)"
  by (induction sep xs rule: join.induct) auto

lemma quote_printable: "set (quote s) \<subseteq> set PRINTABLE"
proof -
  have "QUOTE \<in> set PRINTABLE" by (simp add: QUOTE_def PRINTABLE_def)
  with escape_char_printable show ?thesis by (auto simp: quote_def)
qed

lemma solid_dumps_entry:
  fixes k :: int
  assumes "30 \<le> k" and "k \<le> 95"
  shows "solid (json_dumps (entry_of ident now question answer tags k))"
proof -
  let ?d = "json_dumps (entry_of ident now question answer tags k)"
  have p: "CHR ''{'' \<in> set PRINTABLE" "CHR ''}'' \<in> set PRINTABLE" "CHR ''['' \<in> set PRINTABLE"
    "CHR '']'' \<in> set PRINTABLE" "CHR '','' \<in> set PRINTABLE" "CHR '':'' \<in> set PRINTABLE"
    "CHR '' '' \<in> set PRINTABLE" "CHR ''0'' \<in> set PRINTABLE" "CHR ''.'' \<in> set PRINTABLE"
    by (simp_all add: PRINTABLE_def)
  have j: "set (join '', '' (map quote tags)) \<subseteq> set PRINTABLE"
    using set_join [of "'', ''" "map quote tags"] quote_printable p by auto
  have f: "set (float_repr (of_int k / 100)) \<subseteq> set PRINTABLE"
    using score_digits_value(3) [OF assms] p
    by (simp only: score_repr [OF assms]) auto
  have "set ?d \<subseteq> set PRINTABLE"
    unfolding dumps_entry using p j f quote_printable by auto
  moreover have "?d \<noteq> []" "hd ?d \<noteq> CHR '' ''" "last ?d \<noteq> CHR '' ''"
    unfolding dumps_entry by simp_all
  ultimately show ?thesis by (simp add: solid_def)
qed

lemma is_entry_facts:
  assumes "is_entry e"
  shows "json_loads (json_dumps e) = Inr e" and "solid (json_dumps e)"
  using assms loads_dumps_entry solid_dumps_entry by (auto simp: is_entry_def)

lemma loads_entries:
  "list_all is_entry es \<Longrightarrow> map_err json_loads (map json_dumps es) = Inr es"
  by (induction es) (simp_all add: is_entry_facts bind_err_def)

lemma log_text_lines: "log_text es = lines_text (map json_dumps es)"
  by (simp add: log_text_def lines_text_def comp_def)

lemma read_log_text:
  assumes "list_all is_entry es"
  shows "map_err json_loads (filter (\<lambda>l. strip l \<noteq> []) (splitlines (strip (log_text es))))
           = Inr es"
    and "length (filter (\<lambda>l. strip l \<noteq> []) (file_lines (log_text es))) = length es"
proof -
  from assms have s: "list_all solid (map json_dumps es)"
    by (induction es) (simp_all add: is_entry_facts)
  show "length (filter (\<lambda>l. strip l \<noteq> []) (file_lines (log_text es))) = length es"
    by (simp add: log_text_lines file_lines_lines_text [OF s] filter_solid [OF s])
  show "map_err json_loads (filter (\<lambda>l. strip l \<noteq> []) (splitlines (strip (log_text es))))
           = Inr es"
  proof (cases es rule: rev_cases)
    case Nil
    then show ?thesis
      by (simp add: log_text_def strip_def splitlines_def)
  next
    case (snoc xs x)
    with s have s': "list_all solid (map json_dumps xs @ [json_dumps x])" by simp
    have "splitlines (strip (log_text es)) = map json_dumps es"
      using strip_lines_text [OF s'] splitlines_lines_text [OF s']
      by (simp add: log_text_lines snoc)
    then show ?thesis
      by (simp add: filter_solid [OF s] loads_entries [OF assms])
  qed
qed

lemma load_log_ok:
  assumes "log_ok w es"
  shows "load_log None w = Inr es" and "log_count w = length es"
proof -
  from assms have e: "list_all is_entry es" by (simp add: log_ok_def)
  from assms consider "log_file w = None" "es = []" | "log_file w = Some (log_text es)"
    by (auto simp: log_ok_def)
  then show "load_log None w = Inr es"
  proof cases
    case 1
    then show ?thesis by (simp add: load_log_def)
  next
    case 2
    then show ?thesis
      by (simp add: load_log_def read_log_text(1) [OF e] bind_err_def)
  qed
  from assms consider "log_file w = None" "es = []" | "log_file w = Some (log_text es)"
    by (auto simp: log_ok_def)
  then show "log_count w = length es"
  proof cases
    case 1
    then show ?thesis by (simp add: log_count_def)
  next
    case 2
    then show ?thesis
      by (simp add: log_count_def read_log_text(2) [OF e])
  qed
qed

lemma load_log_limit:
  assumes "load_log None w = Inr es"
  shows "load_log (Some n) w = Inr (if n = 0 then es else slice_from (- n) es)"
  using assms
  by (auto simp: load_log_def bind_err_def Let_def slice_from_def split: option.splits sum.splits)

lemma slice_from_recent:
  "0 < n \<Longrightarrow> slice_from (- n) es = drop (length es - nat n) es"
  by (simp add: slice_from_def nat_diff_distrib')

lemma log_interaction_entry:
  "is_entry (fst (log_interaction py ident now question answer extra w))"
proof -
  obtain k :: int where k: "score_confidence question answer = of_int k / 100"
    "30 \<le> k" "k \<le> 95"
    using score_of_int by (fastforce simp: score_confidence_def Let_def)
  show ?thesis
    unfolding log_interaction_def Let_def is_entry_def entry_of_def fst_conv k(1)
    using k(2,3) by (metis list.map_comp)
qed

lemma log_interaction_file:
  "log_file (snd (log_interaction py ident now question answer extra w))
     = Some ((case log_file w of None \<Rightarrow> [] | Some text \<Rightarrow> text)
             @ json_dumps (fst (log_interaction py ident now question answer extra w)) @ NL)"
  by (simp add: log_interaction_def Let_def)

lemma log_ok_append:
  assumes "log_ok w es"
  shows "log_ok (snd (log_interaction py ident now question answer extra w))
           (es @ [fst (log_interaction py ident now question answer extra w)])"
  using assms log_interaction_entry [of py ident now question answer extra w]
  by (auto simp: log_ok_def log_interaction_file log_text_def)

lemma log_all_ok:
  assumes "log_ok w es"
  shows "log_ok (snd (log_all py calls w)) (es @ fst (log_all py calls w))"
    and "length (fst (log_all py calls w)) = length calls"
  using assms
proof (induction calls arbitrary: w es)
  case Nil
  case 1 then show ?case by simp
  case 2 show ?case by simp
next
  case (Cons c calls)
  obtain ident now question answer extra where c: "c = (ident, now, question, answer, extra)"
    by (cases c)
  let ?r = "log_interaction py ident now question answer extra w"
  case 1
  from Cons.IH(1) [OF log_ok_append [OF 1, of py ident now question answer extra]]
  show ?case by (simp add: c split_beta)
  case 2
  from Cons.IH(2) [OF log_ok_append [OF 2, of py ident now question answer extra]]
  show ?case by (simp add: c split_beta)
qed

lemma log_ok_start: "log_file w = None \<Longrightarrow> log_ok w []"
  by (simp add: log_ok_def)

lemma log_ok_file: "log_file w = log_file v \<Longrightarrow> log_ok v es \<Longrightarrow> log_ok w es"
  by (simp add: log_ok_def)

lemma example_call:
  "log_interaction example_py ''1a2b3c4d'' ''t0'' ''q'' ''a'' None empty_world
     = (example_entry, empty_world\<lparr>log_file := Some (json_dumps example_entry @ NL),
                                    trace := [Wrote LogFile]\<rparr>)"
proof -
  have t: "auto_tag ''q a'' = []"
    by code_simp
  have s: "score_confidence ''q'' ''a'' = 85 / 100"
    by code_simp
  show ?thesis
    by (simp add: log_interaction_def Let_def t s example_entry_def empty_world_def)
qed

text \<open>
  C3, as stated, fails at the limit 0: after one append to a log that did not exist,
  \<open>load_log(0)\<close> returns the record and not the most recent zero records.
\<close>

theorem load_log_limit_counterexample:
  "load_log (Some 0) (snd (log_all example_py [(''1a2b3c4d'', ''t0'', ''q'', ''a'', None)]
                             empty_world))
     = Inr [example_entry]
   \<and> drop (length [example_entry] - nat 0) [example_entry] = []
   \<and> load_log (Some 0) (snd (log_all example_py [(''1a2b3c4d'', ''t0'', ''q'', ''a'', None)]
                               empty_world))
       \<noteq> Inr (drop (length [example_entry] - nat 0) [example_entry])"
proof -
  have w: "log_all example_py [(''1a2b3c4d'', ''t0'', ''q'', ''a'', None)] empty_world
             = ([example_entry], empty_world\<lparr>log_file := Some (json_dumps example_entry @ NL),
                                    trace := [Wrote LogFile]\<rparr>)"
    by (simp add: example_call)
  have e: "is_entry example_entry"
    unfolding is_entry_def entry_of_def example_entry_def
    by (rule exI [of _ "''1a2b3c4d''"], rule exI [of _ "''t0''"], rule exI [of _ "''q''"],
        rule exI [of _ "''a''"], rule exI [of _ "[]"], rule exI [of _ 85]) simp
  have "log_ok (empty_world\<lparr>log_file := Some (json_dumps example_entry @ NL),
                            trace := [Wrote LogFile]\<rparr>) [example_entry]"
    by (simp add: log_ok_def log_text_def e)
  from load_log_limit [OF load_log_ok(1) [OF this], of 0] show ?thesis
    unfolding w by simp
qed

text \<open>
  C3, amended.  Start from a directory without a log and make any sequence of appends.
  Before the first append \<open>load_log()\<close> returns the empty list.  Afterwards
  \<open>load_log()\<close> returns the entries that the appends returned, in the order of the
  appends; \<open>log_count()\<close> is the number of appends; for every limit \<open>n\<close> of at least 1,
  \<open>load_log(n)\<close> returns the last \<open>n\<close> of them (all of them when there are fewer), oldest
  first; and \<open>load_log(0)\<close> returns all of them.
\<close>

theorem log_roundtrip:
  assumes "log_file w0 = None"
  shows "load_log None w0 = Inr []
       \<and> length (fst (log_all py calls w0)) = length calls
       \<and> load_log None (snd (log_all py calls w0)) = Inr (fst (log_all py calls w0))
       \<and> log_count (snd (log_all py calls w0)) = length calls
       \<and> (\<forall>n. 1 \<le> n \<longrightarrow>
              load_log (Some n) (snd (log_all py calls w0))
                = Inr (drop (length calls - nat n) (fst (log_all py calls w0))))
       \<and> load_log (Some 0) (snd (log_all py calls w0)) = Inr (fst (log_all py calls w0))"
proof -
  let ?es = "fst (log_all py calls w0)" and ?w = "snd (log_all py calls w0)"
  from log_all_ok [OF log_ok_start [OF assms], of py calls]
  have ok: "log_ok ?w ?es" and len: "length ?es = length calls" by simp_all
  note ld = load_log_ok [OF ok]
  have lim: "load_log (Some n) ?w = Inr (drop (length calls - nat n) ?es)" if "1 \<le> n" for n
    using load_log_limit [OF ld(1), of n] that by (simp add: slice_from_recent len)
  have zero: "load_log (Some 0) ?w = Inr ?es"
    using load_log_limit [OF ld(1), of 0] by simp
  from assms have "load_log None w0 = Inr []" by (simp add: load_log_def)
  with len ld lim zero show ?thesis by simp
qed

theorem log_roundtrip_witness:
  "log_file empty_world = None
   \<and> load_log None (snd (log_all example_py [(''1a2b3c4d'', ''t0'', ''q'', ''a'', None)]
                            empty_world))
       = Inr [example_entry]
   \<and> log_count (snd (log_all example_py [(''1a2b3c4d'', ''t0'', ''q'', ''a'', None)]
                        empty_world)) = 1
   \<and> load_log (Some 1) (snd (log_all example_py [(''1a2b3c4d'', ''t0'', ''q'', ''a'', None)]
                               empty_world))
       = Inr [example_entry]"
proof -
  have n: "log_file empty_world = None"
    by (simp add: empty_world_def)
  have f: "fst (log_all example_py [(''1a2b3c4d'', ''t0'', ''q'', ''a'', None)] empty_world)
             = [example_entry]"
    by (simp add: example_call)
  from log_roundtrip [OF n, of example_py "[(''1a2b3c4d'', ''t0'', ''q'', ''a'', None)]"]
  have "load_log None (snd (log_all example_py [(''1a2b3c4d'', ''t0'', ''q'', ''a'', None)]
                            empty_world)) = Inr [example_entry]"
    and "log_count (snd (log_all example_py [(''1a2b3c4d'', ''t0'', ''q'', ''a'', None)]
                        empty_world)) = 1"
    and "load_log (Some 1) (snd (log_all example_py [(''1a2b3c4d'', ''t0'', ''q'', ''a'', None)]
                               empty_world)) = Inr [example_entry]"
    unfolding f by simp_all
  with n show ?thesis by blast
qed

text \<open>
  C9.  Let the log be as appends to a log that did not exist have left it.  After a
  further call of \<open>log_interaction\<close> that returns the entry \<open>e\<close>, \<open>load_log()\<close> returns
  the records it returned before the call, unchanged and in their order, followed by
  \<open>e\<close>; so \<open>e\<close> is its last element.
\<close>

theorem append_read_back:
  assumes "log_file w0 = None"
    and "log_file w = log_file (snd (log_all py calls w0))"
  shows "load_log None w = Inr (fst (log_all py calls w0))
       \<and> load_log None (snd (log_interaction py' ident now question answer extra w))
           = Inr (fst (log_all py calls w0)
                  @ [fst (log_interaction py' ident now question answer extra w)])"
proof -
  from log_all_ok(1) [OF log_ok_start [OF assms(1)], of py calls]
  have "log_ok (snd (log_all py calls w0)) (fst (log_all py calls w0))" by simp
  from log_ok_file [OF assms(2) this]
  have ok: "log_ok w (fst (log_all py calls w0))" .
  from load_log_ok(1) [OF ok]
    load_log_ok(1) [OF log_ok_append [OF ok, of py' ident now question answer extra]]
  show ?thesis by simp
qed

theorem append_read_back_witness:
  "log_file empty_world = None
   \<and> load_log None (example_world\<lparr>belief_file := None\<rparr>) = Inr [example_entry]
   \<and> load_log None (snd (log_interaction example_py ''5e6f7a8b'' ''t1'' ''b'' ''c''
                            (Some [''x'']) (example_world\<lparr>belief_file := None\<rparr>)))
       = Inr [example_entry,
              fst (log_interaction example_py ''5e6f7a8b'' ''t1'' ''b'' ''c''
                     (Some [''x'']) (example_world\<lparr>belief_file := None\<rparr>))]
   \<and> last [example_entry,
            fst (log_interaction example_py ''5e6f7a8b'' ''t1'' ''b'' ''c''
                   (Some [''x'']) (example_world\<lparr>belief_file := None\<rparr>))]
       = JObj [(''id'', JStr ''5e6f7a8b''), (''timestamp'', JStr ''t1''),
               (''question'', JStr ''b''), (''answer'', JStr ''c''),
               (''tags'', JArr [JStr ''x'']), (''confidence'', JFloat (85 / 100))]"
proof -
  have n: "log_file empty_world = None"
    by (simp add: empty_world_def)
  have f: "log_all example_py [(''1a2b3c4d'', ''t0'', ''q'', ''a'', None)] empty_world
             = ([example_entry], empty_world\<lparr>log_file := Some (json_dumps example_entry @ NL),
                                    trace := [Wrote LogFile]\<rparr>)"
    by (simp add: example_call)
  have l: "log_file (example_world\<lparr>belief_file := None\<rparr>)
             = log_file (snd (log_all example_py [(''1a2b3c4d'', ''t0'', ''q'', ''a'', None)]
                                empty_world))"
    unfolding f by (simp add: example_world_def)
  have t: "auto_tag ''b c'' = []"
    by code_simp
  have s: "score_confidence ''b'' ''c'' = 85 / 100"
    by code_simp
  have e: "fst (log_interaction example_py ''5e6f7a8b'' ''t1'' ''b'' ''c''
                   (Some [''x'']) (example_world\<lparr>belief_file := None\<rparr>))
       = JObj [(''id'', JStr ''5e6f7a8b''), (''timestamp'', JStr ''t1''),
               (''question'', JStr ''b''), (''answer'', JStr ''c''),
               (''tags'', JArr [JStr ''x'']), (''confidence'', JFloat (85 / 100))]"
    by (simp add: log_interaction_def Let_def t s example_py_def)
  from append_read_back [OF n l, of example_py "''5e6f7a8b''" "''t1''" "''b''" "''c''"
      "Some [''x'']"]
  have "load_log None (example_world\<lparr>belief_file := None\<rparr>) = Inr [example_entry]"
    and "load_log None (snd (log_interaction example_py ''5e6f7a8b'' ''t1'' ''b'' ''c''
                            (Some [''x'']) (example_world\<lparr>belief_file := None\<rparr>)))
       = Inr [example_entry,
              fst (log_interaction example_py ''5e6f7a8b'' ''t1'' ''b'' ''c''
                     (Some [''x'']) (example_world\<lparr>belief_file := None\<rparr>))]"
    unfolding f by simp_all
  with n e show ?thesis by simp
qed

end
